theory Spec2Isabelle
  imports Main "HOL-Library.Word" "HOL-Library.List_Lexorder" "HOL-Library.Product_Lexorder"
begin

section \<open>Strings, bytes and constants\<close>

text \<open>
  A JavaScript string is a sequence of UTF-16 code units; \<open>String.fromCharCode\<close> reduces
  its argument modulo \<open>2^16\<close>, which is the arithmetic of \<open>16 word\<close>. Blobs are byte
  lists. Text columns are compared code unit by code unit (the order of
  \<open>HOL-Library.List_Lexorder\<close>). The store compares the UTF-8 encodings byte by byte;
  the two orders agree on strings without surrogate code units and can differ on the
  others, so the listing queries below are those of the code on surrogate-free text.
\<close>

type_synonym jschar = "16 word"
type_synonym jsstring = "jschar list"
type_synonym bytes = "8 word list"

definition js :: "string \<Rightarrow> jsstring" where
  "js s = map (\<lambda>c. of_nat (of_char c)) s"

definition slash :: jschar where
  "slash = 47"

definition CHUNK_SIZE :: nat where
  "CHUNK_SIZE = 1024 * 1024"

text \<open>\<open>Array.prototype.slice(a, b)\<close> on a typed array, for \<open>0 \<le> a\<close> and \<open>0 \<le> b\<close>.\<close>

definition slice :: "nat \<Rightarrow> nat \<Rightarrow> 'a list \<Rightarrow> 'a list" where
  "slice a b xs = take (b - a) (drop a xs)"

section \<open>Numbers\<close>

text \<open>
  A JS number as far as the engine computes with one. \<open>parseInt\<close> returns \<open>NaN\<close> or a
  number with an integer value, \<open>Num n\<close>. (On a digit string beyond the double range it
  returns an infinity; in every use below an infinity behaves as an integer beyond the
  64-bit range does, and it is the \<open>Num\<close> of one.) The source adds and multiplies in
  double precision, which is exact while the results stay below \<open>2^53\<close> in absolute
  value; the model does so exactly everywhere.
\<close>

datatype number = NaN | Num int

fun num_add :: "number \<Rightarrow> int \<Rightarrow> number" where
  "num_add NaN k = NaN"
| "num_add (Num n) k = Num (n + k)"

fun num_mul :: "number \<Rightarrow> int \<Rightarrow> number" where
  "num_mul NaN k = NaN"
| "num_mul (Num n) k = Num (n * k)"

text \<open>\<open>a > b\<close> and \<open>a >= b\<close> for an integer \<open>a\<close>: false of \<open>NaN\<close>.\<close>

fun js_gt :: "int \<Rightarrow> number \<Rightarrow> bool" where
  "js_gt a NaN = False"
| "js_gt a (Num b) = (a > b)"

fun js_ge :: "int \<Rightarrow> number \<Rightarrow> bool" where
  "js_ge a NaN = False"
| "js_ge a (Num b) = (a \<ge> b)"

section \<open>Key derivation\<close>

definition computeDepth :: "jsstring \<Rightarrow> nat" where
  "computeDepth key = length (filter (\<lambda>c. c = slash) key)"

fun lastIndexOf :: "'a \<Rightarrow> 'a list \<Rightarrow> nat option" where
  "lastIndexOf c [] = None"
| "lastIndexOf c (x # xs) =
     (case lastIndexOf c xs of
        Some i \<Rightarrow> Some (Suc i)
      | None \<Rightarrow> if x = c then Some 0 else None)"

definition endsWith_slash :: "jsstring \<Rightarrow> bool" where
  "endsWith_slash key = (key \<noteq> [] \<and> last key = slash)"

definition computeParent :: "jsstring \<Rightarrow> jsstring" where
  "computeParent key =
     (let trimmed = (if endsWith_slash key then butlast key else key)
      in case lastIndexOf slash trimmed of
           None \<Rightarrow> []
         | Some lastSlash \<Rightarrow> take (lastSlash + 1) trimmed)"

section \<open>The tenant store\<close>

record obj_row =
  o_bucket :: jsstring
  o_key :: jsstring
  o_chunk_index :: nat
  o_size :: nat
  o_etag :: jsstring
  o_last_modified :: jsstring
  o_content_type :: jsstring
  o_data :: bytes
  o_depth :: "nat option"
  o_parent :: "jsstring option"

record upload_row =
  u_upload_id :: jsstring
  u_bucket :: jsstring
  u_key :: jsstring
  u_created_at :: jsstring
  u_content_type :: jsstring

record part_row =
  p_upload_id :: jsstring
  p_part_number :: int
  p_chunk_index :: nat
  p_size :: nat
  p_etag :: jsstring
  p_data :: bytes

record store =
  objects :: "obj_row list"
  multipart_uploads :: "upload_row list"
  multipart_parts :: "part_row list"

definition empty_store :: store where
  "empty_store = \<lparr>objects = [], multipart_uploads = [], multipart_parts = []\<rparr>"

subsection \<open>Statements on the objects table\<close>

definition obj_pk :: "obj_row \<Rightarrow> jsstring \<times> jsstring \<times> nat" where
  "obj_pk r = (o_bucket r, o_key r, o_chunk_index r)"

definition is_object :: "jsstring \<Rightarrow> jsstring \<Rightarrow> obj_row \<Rightarrow> bool" where
  "is_object bucket key r = (o_bucket r = bucket \<and> o_key r = key)"

text \<open>\<open>INSERT INTO objects\<close>: the primary key \<open>(bucket, key, chunk_index)\<close> must be
  new, otherwise the statement throws and the table is unchanged.\<close>

definition insert_object :: "obj_row \<Rightarrow> obj_row list \<Rightarrow> obj_row list option" where
  "insert_object r t = (if obj_pk r \<in> set (map obj_pk t) then None else Some (t @ [r]))"

text \<open>\<open>DELETE FROM objects WHERE bucket = ? AND key = ?\<close>\<close>

definition delete_object_rows :: "jsstring \<Rightarrow> jsstring \<Rightarrow> obj_row list \<Rightarrow> obj_row list" where
  "delete_object_rows bucket key t = filter (\<lambda>r. \<not> is_object bucket key r) t"

text \<open>\<open>SELECT ... FROM objects WHERE bucket = ? AND key = ? AND chunk_index = 0\<close>\<close>

definition select_chunk0 :: "jsstring \<Rightarrow> jsstring \<Rightarrow> obj_row list \<Rightarrow> obj_row list" where
  "select_chunk0 bucket key t =
     filter (\<lambda>r. is_object bucket key r \<and> o_chunk_index r = 0) t"

text \<open>\<open>SELECT ... FROM objects WHERE bucket = ? AND key = ? ORDER BY chunk_index\<close>\<close>

definition select_chunks :: "jsstring \<Rightarrow> jsstring \<Rightarrow> obj_row list \<Rightarrow> obj_row list" where
  "select_chunks bucket key t = sort_key o_chunk_index (filter (is_object bucket key) t)"

section \<open>Responses\<close>

datatype s3_code =
  NoSuchBucket | Unauthorized | Forbidden | NoSuchKey | NoSuchUpload
  | InvalidPart | InvalidArgument | NotImplemented | InternalError

text \<open>The XML documents are kept as terms: the element values before \<open>escapeXml\<close>
  and string interpolation. The random \<open>x-amz-request-id\<close> header is left out.\<close>

record list_entry =
  le_key :: jsstring
  le_last_modified :: jsstring
  le_etag :: jsstring
  le_size :: nat

record upload_entry =
  ue_key :: jsstring
  ue_upload_id :: jsstring
  ue_initiated :: jsstring

record list_bucket_result =
  lb_name :: jsstring
  lb_prefix :: jsstring
  lb_delimiter :: "jsstring option"
  lb_key_count :: nat
  lb_max_keys :: number
  lb_is_truncated :: bool
  lb_next_continuation_token :: "jsstring option"
  lb_contents :: "list_entry list"
  lb_common_prefixes :: "jsstring list"

record list_uploads_result =
  lu_bucket :: jsstring
  lu_key_marker :: jsstring
  lu_upload_id_marker :: jsstring
  lu_max_uploads :: number
  lu_is_truncated :: bool
  lu_prefix :: "jsstring option"
  lu_next_markers :: "(jsstring \<times> jsstring) option"
  lu_uploads :: "upload_entry list"

datatype body =
  NoBody
  | Binary bytes
  | ErrorXml s3_code string
  | CopyObjectResult jsstring jsstring
  | ListBucketResult list_bucket_result
  | ListMultipartUploadsResult list_uploads_result
  | InitiateMultipartUploadResult jsstring jsstring jsstring
  | CompleteMultipartUploadResult jsstring jsstring jsstring

text \<open>\<open>new Date(x).toUTCString()\<close>, kept as a term in the stored string \<open>x\<close>.\<close>

datatype http_date = UTCString jsstring

record response =
  status :: nat
  hdr_content_type :: "jsstring option"
  hdr_content_length :: "nat option"
  hdr_etag :: "jsstring option"
  hdr_last_modified :: "http_date option"
  body :: body

definition quoted :: "jsstring \<Rightarrow> jsstring" where
  "quoted e = js ''\"'' @ e @ js ''\"''"

definition errorResponse :: "s3_code \<Rightarrow> string \<Rightarrow> nat \<Rightarrow> response" where
  "errorResponse code message st =
     \<lparr>status = st, hdr_content_type = Some (js ''application/xml''),
      hdr_content_length = None, hdr_etag = None, hdr_last_modified = None,
      body = ErrorXml code message\<rparr>"

definition xmlResponse :: "body \<Rightarrow> response" where
  "xmlResponse b =
     \<lparr>status = 200, hdr_content_type = Some (js ''application/xml''),
      hdr_content_length = None, hdr_etag = None, hdr_last_modified = None,
      body = b\<rparr>"

definition etagResponse :: "jsstring \<Rightarrow> response" where
  "etagResponse etag =
     \<lparr>status = 200, hdr_content_type = None, hdr_content_length = None,
      hdr_etag = Some (quoted etag), hdr_last_modified = None, body = NoBody\<rparr>"

definition emptyResponse :: "nat \<Rightarrow> response" where
  "emptyResponse st =
     \<lparr>status = st, hdr_content_type = None, hdr_content_length = None,
      hdr_etag = None, hdr_last_modified = None, body = NoBody\<rparr>"

section \<open>PutObject, GetObject, HeadObject, DeleteObject\<close>

definition meta_row ::
  "jsstring \<Rightarrow> jsstring \<Rightarrow> nat \<Rightarrow> jsstring \<Rightarrow> jsstring \<Rightarrow> jsstring \<Rightarrow> bytes \<Rightarrow> obj_row" where
  "meta_row bucket key sz etag lastModified contentType d =
     \<lparr>o_bucket = bucket, o_key = key, o_chunk_index = 0, o_size = sz, o_etag = etag,
      o_last_modified = lastModified, o_content_type = contentType, o_data = d,
      o_depth = Some (computeDepth key), o_parent = Some (computeParent key)\<rparr>"

definition chunk_row :: "jsstring \<Rightarrow> jsstring \<Rightarrow> nat \<Rightarrow> bytes \<Rightarrow> obj_row" where
  "chunk_row bucket key chunkIndex d =
     \<lparr>o_bucket = bucket, o_key = key, o_chunk_index = chunkIndex, o_size = 0, o_etag = [],
      o_last_modified = [], o_content_type = [], o_data = d,
      o_depth = None, o_parent = None\<rparr>"

text \<open>The loop \<open>for (offset = CHUNK_SIZE; offset < size; offset += CHUNK_SIZE)\<close> of
  \<open>putObject\<close>. \<open>Inl\<close> is the table at the moment an insert threw.\<close>

function put_chunks ::
  "jsstring \<Rightarrow> jsstring \<Rightarrow> bytes \<Rightarrow> nat \<Rightarrow> nat \<Rightarrow> obj_row list \<Rightarrow> obj_row list + obj_row list"
where
  "put_chunks bucket key dataArray offset chunkIndex t =
     (if offset < length dataArray then
        (let chunkEnd = min (offset + CHUNK_SIZE) (length dataArray);
             chunk = slice offset chunkEnd dataArray
         in case insert_object (chunk_row bucket key chunkIndex chunk) t of
              None \<Rightarrow> Inl t
            | Some t' \<Rightarrow> put_chunks bucket key dataArray (offset + CHUNK_SIZE) (chunkIndex + 1) t')
      else Inr t)"
  by pat_completeness auto
termination
  by (relation "measure (\<lambda>(bucket, key, dataArray, offset, chunkIndex, t). length dataArray - offset)")
     (auto simp: CHUNK_SIZE_def)

definition putObject ::
  "(bytes \<Rightarrow> jsstring) \<Rightarrow> jsstring \<Rightarrow> jsstring \<Rightarrow> jsstring \<Rightarrow> bytes \<Rightarrow> jsstring option
     \<Rightarrow> store \<Rightarrow> response \<times> store" where
  "putObject md5 now bucket key data contentTypeHdr s =
     (let sz = length data;
          contentType = (case contentTypeHdr of
                           None \<Rightarrow> js ''application/octet-stream''
                         | Some c \<Rightarrow> if c = [] then js ''application/octet-stream'' else c);
          etag = md5 data;
          lastModified = now;
          t1 = delete_object_rows bucket key (objects s);
          first = (if sz = 0 then [] else slice 0 (min CHUNK_SIZE sz) data)
      in case insert_object (meta_row bucket key sz etag lastModified contentType first) t1 of
           None \<Rightarrow> (errorResponse InternalError ''Failed to store object'' 500, s\<lparr>objects := t1\<rparr>)
         | Some t2 \<Rightarrow>
             (case (if sz > CHUNK_SIZE then put_chunks bucket key data CHUNK_SIZE 1 t2 else Inr t2) of
                Inl t3 \<Rightarrow> (errorResponse InternalError ''Failed to store object'' 500, s\<lparr>objects := t3\<rparr>)
              | Inr t3 \<Rightarrow> (etagResponse etag, s\<lparr>objects := t3\<rparr>)))"

text \<open>\<open>combinedData.set(chunkData, offset)\<close> on a \<open>Uint8Array\<close>: a \<open>RangeError\<close>
  (\<open>None\<close>) when the chunk does not fit.\<close>

definition typed_array_set :: "bytes \<Rightarrow> bytes \<Rightarrow> nat \<Rightarrow> bytes option" where
  "typed_array_set buf chunkData offset =
     (if offset + length chunkData > length buf then None
      else Some (take offset buf @ chunkData @ drop (offset + length chunkData) buf))"

fun combine_chunks :: "bytes \<Rightarrow> nat \<Rightarrow> bytes list \<Rightarrow> bytes option" where
  "combine_chunks combinedData offset [] = Some combinedData"
| "combine_chunks combinedData offset (chunkData # rest) =
     (case typed_array_set combinedData chunkData offset of
        None \<Rightarrow> None
      | Some combinedData' \<Rightarrow> combine_chunks combinedData' (offset + length chunkData) rest)"

definition getObject :: "store \<Rightarrow> jsstring \<Rightarrow> jsstring \<Rightarrow> bool \<Rightarrow> response" where
  "getObject s bucket key headOnly =
     (case select_chunk0 bucket key (objects s) of
        [] \<Rightarrow> errorResponse NoSuchKey ''The specified key does not exist.'' 404
      | row # _ \<Rightarrow>
          (let headers = \<lparr>status = 200, hdr_content_type = Some (o_content_type row),
                          hdr_content_length = Some (o_size row),
                          hdr_etag = Some (quoted (o_etag row)),
                          hdr_last_modified = Some (UTCString (o_last_modified row)),
                          body = NoBody\<rparr>
           in if headOnly then headers
              else
                (let chunks = select_chunks bucket key (objects s)
                 in if chunks = [] then headers\<lparr>body := Binary []\<rparr>
                    else
                      (case combine_chunks (replicate (o_size row) 0) 0 (map o_data chunks) of
                         None \<Rightarrow> errorResponse InternalError ''Failed to retrieve object'' 500
                       | Some combined \<Rightarrow> headers\<lparr>body := Binary combined\<rparr>))))"

definition deleteObject :: "jsstring \<Rightarrow> jsstring \<Rightarrow> store \<Rightarrow> response \<times> store" where
  "deleteObject bucket key s =
     (emptyResponse 204, s\<lparr>objects := delete_object_rows bucket key (objects s)\<rparr>)"

section \<open>CopyObject\<close>

fun indexOf :: "'a \<Rightarrow> 'a list \<Rightarrow> nat option" where
  "indexOf c [] = None"
| "indexOf c (x # xs) =
     (if x = c then Some 0 else (case indexOf c xs of None \<Rightarrow> None | Some i \<Rightarrow> Some (Suc i)))"

text \<open>The loop \<open>for (const chunk of chunks)\<close> of \<open>copyObject\<close>.\<close>

fun copy_chunks ::
  "jsstring \<Rightarrow> jsstring \<Rightarrow> obj_row \<Rightarrow> jsstring \<Rightarrow> obj_row list \<Rightarrow> obj_row list
     \<Rightarrow> obj_row list + obj_row list" where
  "copy_chunks bucket destKey sourceMeta lastModified [] t = Inr t"
| "copy_chunks bucket destKey sourceMeta lastModified (chunk # rest) t =
     (case insert_object
             (if o_chunk_index chunk = 0
              then meta_row bucket destKey (o_size sourceMeta) (o_etag sourceMeta) lastModified
                     (o_content_type sourceMeta) (o_data chunk)
              else chunk_row bucket destKey (o_chunk_index chunk) (o_data chunk)) t of
        None \<Rightarrow> Inl t
      | Some t' \<Rightarrow> copy_chunks bucket destKey sourceMeta lastModified rest t')"

text \<open>\<open>decode\<close> is \<open>decodeURIComponent\<close>; \<open>None\<close> is its \<open>URIError\<close>.\<close>

definition copyObject ::
  "(jsstring \<Rightarrow> jsstring option) \<Rightarrow> jsstring \<Rightarrow> jsstring \<Rightarrow> jsstring \<Rightarrow> jsstring
     \<Rightarrow> store \<Rightarrow> response \<times> store" where
  "copyObject decode now bucket destKey copySource s =
     (let sourcePath = (if take 1 copySource = [slash] then drop 1 copySource else copySource)
      in case indexOf slash sourcePath of
           None \<Rightarrow> (errorResponse InvalidArgument ''Invalid copy source'' 400, s)
         | Some slashIndex \<Rightarrow>
             (let sourceBucket = take slashIndex sourcePath
              in case decode (drop (slashIndex + 1) sourcePath) of
                   None \<Rightarrow> (errorResponse InternalError ''Failed to copy object'' 500, s)
                 | Some sourceKey \<Rightarrow>
                     if sourceBucket \<noteq> bucket
                     then (errorResponse InvalidArgument ''Cross-bucket copy not supported'' 400, s)
                     else
                       (case select_chunk0 sourceBucket sourceKey (objects s) of
                          [] \<Rightarrow> (errorResponse NoSuchKey
                                   ''The specified source key does not exist.'' 404, s)
                        | sourceMeta # _ \<Rightarrow>
                            (let lastModified = now;
                                 t1 = delete_object_rows bucket destKey (objects s);
                                 chunks = select_chunks sourceBucket sourceKey t1
                             in case copy_chunks bucket destKey sourceMeta lastModified chunks t1 of
                                  Inl t2 \<Rightarrow> (errorResponse InternalError
                                              ''Failed to copy object'' 500, s\<lparr>objects := t2\<rparr>)
                                | Inr t2 \<Rightarrow> (xmlResponse (CopyObjectResult lastModified
                                                            (quoted (o_etag sourceMeta))),
                                            s\<lparr>objects := t2\<rparr>)))))"

section \<open>Multipart uploads\<close>

definition part_pk :: "part_row \<Rightarrow> jsstring \<times> int \<times> nat" where
  "part_pk r = (p_upload_id r, p_part_number r, p_chunk_index r)"

definition is_part :: "jsstring \<Rightarrow> int \<Rightarrow> part_row \<Rightarrow> bool" where
  "is_part uploadId partNumber r = (p_upload_id r = uploadId \<and> p_part_number r = partNumber)"

definition insert_part :: "part_row \<Rightarrow> part_row list \<Rightarrow> part_row list option" where
  "insert_part r t = (if part_pk r \<in> set (map part_pk t) then None else Some (t @ [r]))"

definition insert_upload :: "upload_row \<Rightarrow> upload_row list \<Rightarrow> upload_row list option" where
  "insert_upload r t =
     (if u_upload_id r \<in> set (map u_upload_id t) then None else Some (t @ [r]))"

definition createMultipartUpload ::
  "jsstring \<Rightarrow> jsstring \<Rightarrow> jsstring \<Rightarrow> jsstring \<Rightarrow> jsstring option \<Rightarrow> store
     \<Rightarrow> response \<times> store" where
  "createMultipartUpload uuid now bucket key contentTypeHdr s =
     (let uploadId = uuid;
          contentType = (case contentTypeHdr of
                           None \<Rightarrow> js ''application/octet-stream''
                         | Some c \<Rightarrow> if c = [] then js ''application/octet-stream'' else c);
          createdAt = now
      in case insert_upload \<lparr>u_upload_id = uploadId, u_bucket = bucket, u_key = key,
                             u_created_at = createdAt, u_content_type = contentType\<rparr>
                (multipart_uploads s) of
           None \<Rightarrow> (errorResponse InternalError ''Failed to create multipart upload'' 500, s)
         | Some t \<Rightarrow> (xmlResponse (InitiateMultipartUploadResult bucket key uploadId),
                      s\<lparr>multipart_uploads := t\<rparr>))"

definition part_chunk_row :: "jsstring \<Rightarrow> int \<Rightarrow> nat \<Rightarrow> nat \<Rightarrow> jsstring \<Rightarrow> bytes \<Rightarrow> part_row" where
  "part_chunk_row uploadId partNumber chunkIndex sz etag d =
     \<lparr>p_upload_id = uploadId, p_part_number = partNumber, p_chunk_index = chunkIndex,
      p_size = sz, p_etag = etag, p_data = d\<rparr>"

text \<open>
  \<open>partNumber\<close> reaches \<open>uploadPart\<close> as \<open>parseInt\<close> returned it and is bound to the
  statements as it is. The store binds \<open>NaN\<close> as \<open>NULL\<close>: \<open>part_number = ?\<close> is then true of
  no row, and an \<open>INSERT\<close> is refused because the column is \<open>NOT NULL\<close>.
\<close>

text \<open>\<open>DELETE FROM multipart_parts WHERE upload_id = ? AND part_number = ?\<close>\<close>

definition delete_part :: "jsstring \<Rightarrow> number \<Rightarrow> part_row list \<Rightarrow> part_row list" where
  "delete_part uploadId partNumber t =
     (case partNumber of
        NaN \<Rightarrow> t
      | Num n \<Rightarrow> filter (\<lambda>r. \<not> is_part uploadId n r) t)"

text \<open>\<open>INSERT INTO multipart_parts (upload_id, part_number, chunk_index, size, etag, data)
  VALUES (?, ?, ?, ?, ?, ?)\<close>\<close>

definition insert_part_chunk ::
  "jsstring \<Rightarrow> number \<Rightarrow> nat \<Rightarrow> nat \<Rightarrow> jsstring \<Rightarrow> bytes \<Rightarrow> part_row list
     \<Rightarrow> part_row list option" where
  "insert_part_chunk uploadId partNumber chunkIndex sz etag d t =
     (case partNumber of
        NaN \<Rightarrow> None
      | Num n \<Rightarrow> insert_part (part_chunk_row uploadId n chunkIndex sz etag d) t)"

function upload_chunks ::
  "jsstring \<Rightarrow> number \<Rightarrow> bytes \<Rightarrow> nat \<Rightarrow> nat \<Rightarrow> part_row list
     \<Rightarrow> part_row list + part_row list"
where
  "upload_chunks uploadId partNumber dataArray offset chunkIndex t =
     (if offset < length dataArray then
        (let chunkEnd = min (offset + CHUNK_SIZE) (length dataArray);
             chunk = slice offset chunkEnd dataArray
         in case insert_part_chunk uploadId partNumber chunkIndex 0 [] chunk t of
              None \<Rightarrow> Inl t
            | Some t' \<Rightarrow>
                upload_chunks uploadId partNumber dataArray (offset + CHUNK_SIZE) (chunkIndex + 1) t')
      else Inr t)"
  by pat_completeness auto
termination
  by (relation "measure (\<lambda>(uploadId, partNumber, dataArray, offset, chunkIndex, t).
                           length dataArray - offset)")
     (auto simp: CHUNK_SIZE_def)

text \<open>\<open>uploadPart\<close> receives \<open>bucket\<close> and \<open>key\<close> and never reads them.\<close>

definition uploadPart ::
  "(bytes \<Rightarrow> jsstring) \<Rightarrow> jsstring \<Rightarrow> jsstring \<Rightarrow> jsstring \<Rightarrow> number \<Rightarrow> bytes \<Rightarrow> store
     \<Rightarrow> response \<times> store" where
  "uploadPart md5 bucket key uploadId partNumber data s =
     (let sz = length data;
          etag = md5 data;
          t1 = delete_part uploadId partNumber (multipart_parts s);
          first = (if sz = 0 then [] else slice 0 (min CHUNK_SIZE sz) data)
      in case insert_part_chunk uploadId partNumber 0 sz etag first t1 of
           None \<Rightarrow> (errorResponse InternalError ''Failed to upload part'' 500,
                     s\<lparr>multipart_parts := t1\<rparr>)
         | Some t2 \<Rightarrow>
             (case (if sz > CHUNK_SIZE then upload_chunks uploadId partNumber data CHUNK_SIZE 1 t2
                    else Inr t2) of
                Inl t3 \<Rightarrow> (errorResponse InternalError ''Failed to upload part'' 500,
                            s\<lparr>multipart_parts := t3\<rparr>)
              | Inr t3 \<Rightarrow> (etagResponse etag, s\<lparr>multipart_parts := t3\<rparr>)))"

text \<open>Decimal digits of a number, as string interpolation prints it.\<close>

fun decimal :: "nat \<Rightarrow> jsstring" where
  "decimal n = (if n < 10 then [of_nat (48 + n)] else decimal (n div 10) @ [of_nat (48 + n mod 10)])"

text \<open>The inner loop \<open>for (const chunk of partChunks)\<close> and the outer loop
  \<open>for (const part of parts)\<close> of \<open>completeMultipartUpload\<close>; the state is
  \<open>objectChunkIndex\<close> and the objects table.\<close>

fun complete_chunks ::
  "obj_row \<Rightarrow> part_row list \<Rightarrow> nat \<Rightarrow> obj_row list \<Rightarrow> obj_row list + nat \<times> obj_row list" where
  "complete_chunks meta [] objectChunkIndex t = Inr (objectChunkIndex, t)"
| "complete_chunks meta (chunk # rest) objectChunkIndex t =
     (case insert_object
             (if objectChunkIndex = 0 then meta\<lparr>o_data := p_data chunk\<rparr>
              else chunk_row (o_bucket meta) (o_key meta) objectChunkIndex (p_data chunk)) t of
        None \<Rightarrow> Inl t
      | Some t' \<Rightarrow> complete_chunks meta rest (objectChunkIndex + 1) t')"

text \<open>\<open>SELECT data FROM multipart_parts WHERE upload_id = ? AND part_number = ?
  ORDER BY chunk_index\<close>\<close>

definition select_part_chunks :: "jsstring \<Rightarrow> int \<Rightarrow> part_row list \<Rightarrow> part_row list" where
  "select_part_chunks uploadId partNumber t =
     sort_key p_chunk_index (filter (is_part uploadId partNumber) t)"

text \<open>\<open>SELECT part_number, size, etag FROM multipart_parts WHERE upload_id = ? AND
  chunk_index = 0 ORDER BY part_number\<close>\<close>

definition select_parts :: "jsstring \<Rightarrow> part_row list \<Rightarrow> part_row list" where
  "select_parts uploadId t =
     sort_key p_part_number (filter (\<lambda>r. p_upload_id r = uploadId \<and> p_chunk_index r = 0) t)"

fun complete_parts ::
  "obj_row \<Rightarrow> jsstring \<Rightarrow> part_row list \<Rightarrow> part_row list \<Rightarrow> nat \<Rightarrow> obj_row list
     \<Rightarrow> obj_row list + nat \<times> obj_row list" where
  "complete_parts meta uploadId pt [] objectChunkIndex t = Inr (objectChunkIndex, t)"
| "complete_parts meta uploadId pt (part # rest) objectChunkIndex t =
     (case complete_chunks meta (select_part_chunks uploadId (p_part_number part) pt)
             objectChunkIndex t of
        Inl t' \<Rightarrow> Inl t'
      | Inr (i, t') \<Rightarrow> complete_parts meta uploadId pt rest i t')"

definition completeMultipartUpload ::
  "jsstring \<Rightarrow> jsstring \<Rightarrow> jsstring \<Rightarrow> jsstring \<Rightarrow> jsstring \<Rightarrow> store \<Rightarrow> response \<times> store" where
  "completeMultipartUpload uuid now bucket key uploadId s =
     (case filter (\<lambda>u. u_upload_id u = uploadId) (multipart_uploads s) of
        [] \<Rightarrow> (errorResponse NoSuchUpload ''The specified upload does not exist'' 404, s)
      | upload # _ \<Rightarrow>
          (let contentType = u_content_type upload;
               parts = select_parts uploadId (multipart_parts s)
           in if parts = []
              then (errorResponse InvalidPart ''No parts were uploaded'' 400, s)
              else
                (let totalSize = sum_list (map p_size parts);
                     t1 = delete_object_rows bucket key (objects s);
                     lastModified = now;
                     etag = filter (\<lambda>c. c \<noteq> 45) uuid @ js ''-'' @ decimal (length parts);
                     meta = meta_row bucket key totalSize etag lastModified contentType []
                 in case complete_parts meta uploadId (multipart_parts s) parts 0 t1 of
                      Inl t2 \<Rightarrow> (errorResponse InternalError
                                  ''Failed to complete multipart upload'' 500,
                                  s\<lparr>objects := t2\<rparr>)
                    | Inr (n, t2) \<Rightarrow>
                        (xmlResponse (CompleteMultipartUploadResult bucket key (quoted etag)),
                         s\<lparr>objects := t2,
                           multipart_parts :=
                             filter (\<lambda>r. p_upload_id r \<noteq> uploadId) (multipart_parts s),
                           multipart_uploads :=
                             filter (\<lambda>u. u_upload_id u \<noteq> uploadId) (multipart_uploads s)\<rparr>))))"

definition abortMultipartUpload :: "jsstring \<Rightarrow> store \<Rightarrow> response \<times> store" where
  "abortMultipartUpload uploadId s =
     (emptyResponse 204,
      s\<lparr>multipart_parts := filter (\<lambda>r. p_upload_id r \<noteq> uploadId) (multipart_parts s),
        multipart_uploads := filter (\<lambda>u. u_upload_id u \<noteq> uploadId) (multipart_uploads s)\<rparr>)"

definition headBucket :: "jsstring \<Rightarrow> response" where
  "headBucket bucket = emptyResponse 200"

section \<open>Listing\<close>

definition startsWith :: "'a list \<Rightarrow> 'a list \<Rightarrow> bool" where
  "startsWith s p = (take (length p) s = p)"

text \<open>\<open>prefix.slice(0, -1) + String.fromCharCode(prefix.charCodeAt(prefix.length - 1) + 1)\<close>,
  computed only under \<open>if (prefix)\<close>; the addition is on a UTF-16 code unit.\<close>

definition prefixUpperBound :: "jsstring \<Rightarrow> jsstring" where
  "prefixUpperBound prefix = butlast prefix @ [last prefix + 1]"

text \<open>\<open>LIMIT ?\<close> with a number bound to it. The statement is refused (\<open>None\<close>, a thrown
  exception) when the number is \<open>NaN\<close>, which is bound as \<open>NULL\<close>, or is outside the 64-bit
  integers; a negative limit is no limit.\<close>

fun sql_limit :: "number \<Rightarrow> 'a list \<Rightarrow> 'a list option" where
  "sql_limit NaN xs = None"
| "sql_limit (Num n) xs =
     (if - (2 ^ 63) < n \<and> n < 2 ^ 63 then Some (if n < 0 then xs else take (nat n) xs)
      else None)"

text \<open>\<open>xs.slice(0, n)\<close>, and what \<open>xs.splice(n)\<close> leaves in \<open>xs\<close>: a negative \<open>n\<close>
  counts from the end, and \<open>NaN\<close> counts as 0.\<close>

fun js_keep :: "number \<Rightarrow> 'a list \<Rightarrow> 'a list" where
  "js_keep NaN xs = []"
| "js_keep (Num n) xs =
     (if n < 0 then take (nat (int (length xs) + n)) xs else take (nat n) xs)"

text \<open>The rows \<open>WHERE bucket = ? AND chunk_index = 0\<close>.\<close>

definition bucket_rows :: "jsstring \<Rightarrow> obj_row list \<Rightarrow> obj_row list" where
  "bucket_rows bucket t = filter (\<lambda>r. o_bucket r = bucket \<and> o_chunk_index r = 0) t"

definition in_prefix_range :: "jsstring \<Rightarrow> jsstring \<Rightarrow> bool" where
  "in_prefix_range prefix k =
     (if prefix = [] then True else prefix \<le> k \<and> k < prefixUpperBound prefix)"

definition after_marker :: "jsstring \<Rightarrow> jsstring \<Rightarrow> bool" where
  "after_marker marker k = (if marker = [] then True else marker < k)"

definition to_entry :: "obj_row \<Rightarrow> list_entry" where
  "to_entry row =
     \<lparr>le_key = o_key row, le_last_modified = o_last_modified row,
      le_etag = quoted (o_etag row), le_size = o_size row\<rparr>"

subsection \<open>Delimiter \<open>/\<close>\<close>

text \<open>\<open>SELECT DISTINCT parent ... AND depth >= ? [AND parent >= ? AND parent < ?]
  [AND parent > ?] ORDER BY parent LIMIT ?\<close>. A comparison with \<open>NULL\<close> selects nothing;
  \<open>NULL\<close> sorts first.\<close>

definition parent_selected :: "jsstring \<Rightarrow> nat \<Rightarrow> jsstring \<Rightarrow> obj_row \<Rightarrow> bool" where
  "parent_selected prefix targetDepth marker r =
     ((case o_depth r of None \<Rightarrow> False | Some d \<Rightarrow> targetDepth \<le> d)
      \<and> (if prefix = [] then True
         else (case o_parent r of None \<Rightarrow> False | Some p \<Rightarrow> in_prefix_range prefix p))
      \<and> (if marker = [] then True
         else (case o_parent r of
                 None \<Rightarrow> False
               | Some p \<Rightarrow>
                   (if computeParent marker \<noteq> [] then computeParent marker else marker) < p)))"

definition select_distinct_parents ::
  "jsstring \<Rightarrow> jsstring \<Rightarrow> nat \<Rightarrow> jsstring \<Rightarrow> number \<Rightarrow> obj_row list
     \<Rightarrow> jsstring option list option" where
  "select_distinct_parents bucket prefix targetDepth marker maxKeys t =
     (let parents = map o_parent (filter (parent_selected prefix targetDepth marker)
                                    (bucket_rows bucket t))
      in sql_limit (num_add maxKeys 1)
           ((if None \<in> set parents then [None] else [])
            @ map Some (sort (remdups (List.map_filter id parents)))))"

text \<open>The loop over \<open>prefixRows\<close> that fills \<open>commonPrefixes\<close>.\<close>

fun collect_prefixes :: "jsstring \<Rightarrow> nat \<Rightarrow> jsstring option list \<Rightarrow> jsstring list \<Rightarrow> jsstring list"
where
  "collect_prefixes prefix targetDepth [] commonPrefixes = commonPrefixes"
| "collect_prefixes prefix targetDepth (None # rows) commonPrefixes =
     collect_prefixes prefix targetDepth rows commonPrefixes"
| "collect_prefixes prefix targetDepth (Some parent # rows) commonPrefixes =
     collect_prefixes prefix targetDepth rows
       (if parent \<noteq> [] \<and> startsWith parent prefix \<and> computeDepth parent = targetDepth
           \<and> parent \<notin> set commonPrefixes
        then commonPrefixes @ [parent] else commonPrefixes)"

text \<open>\<open>SELECT key, size, etag, last_modified ... AND parent = ? [AND key > ?]
  ORDER BY key LIMIT ?\<close>\<close>

definition select_direct_contents ::
  "jsstring \<Rightarrow> jsstring \<Rightarrow> jsstring \<Rightarrow> number \<Rightarrow> obj_row list \<Rightarrow> obj_row list option" where
  "select_direct_contents bucket prefix marker maxKeys t =
     sql_limit (num_add maxKeys 1)
       (sort_key o_key
          (filter (\<lambda>r. o_parent r = Some prefix \<and> after_marker marker (o_key r))
             (bucket_rows bucket t)))"

datatype list_item = PrefixItem jsstring | ContentItem obj_row

fun item_value :: "list_item \<Rightarrow> jsstring" where
  "item_value (PrefixItem cp) = cp"
| "item_value (ContentItem obj) = o_key obj"

text \<open>\<open>allResults.sort((a, b) => a.value.localeCompare(b.value))\<close>: a stable sort by the
  comparator; \<open>lc\<close> is \<open>localeCompare\<close>.\<close>

fun insert_by :: "(jsstring \<Rightarrow> jsstring \<Rightarrow> int) \<Rightarrow> list_item \<Rightarrow> list_item list \<Rightarrow> list_item list"
where
  "insert_by lc x [] = [x]"
| "insert_by lc x (y # ys) =
     (if lc (item_value x) (item_value y) \<le> 0 then x # y # ys else y # insert_by lc x ys)"

definition sort_by :: "(jsstring \<Rightarrow> jsstring \<Rightarrow> int) \<Rightarrow> list_item list \<Rightarrow> list_item list" where
  "sort_by lc xs = foldr (insert_by lc) xs []"

text \<open>The result of a listing branch: \<open>None\<close> when the branch threw (a refused
  statement, or reading \<open>.value\<close> of \<open>undefined\<close>; the \<open>catch\<close> turns it into
  \<open>InternalError\<close>), else \<open>objects\<close>, \<open>commonPrefixes\<close>, \<open>isTruncated\<close> and
  \<open>nextContinuationToken\<close>.\<close>

type_synonym listing = "obj_row list \<times> jsstring list \<times> bool \<times> jsstring"

definition list_slash ::
  "(jsstring \<Rightarrow> jsstring \<Rightarrow> int) \<Rightarrow> jsstring \<Rightarrow> jsstring \<Rightarrow> jsstring \<Rightarrow> number \<Rightarrow> obj_row list
     \<Rightarrow> listing option" where
  "list_slash lc bucket prefix marker maxKeys t =
     (let prefixDepth = computeDepth prefix;
          targetDepth = prefixDepth + 1
      in case select_distinct_parents bucket prefix targetDepth marker maxKeys t of
           None \<Rightarrow> None
         | Some prefixRows \<Rightarrow>
             (let commonPrefixes = collect_prefixes prefix targetDepth prefixRows []
              in case select_direct_contents bucket prefix marker maxKeys t of
                   None \<Rightarrow> None
                 | Some objs \<Rightarrow>
                     (let allResults =
                            sort_by lc (map PrefixItem commonPrefixes @ map ContentItem objs)
                      in if js_gt (int (length allResults)) maxKeys
                         then (let kept = js_keep maxKeys allResults
                               in if kept = [] then None
                                  else Some ([obj. ContentItem obj \<leftarrow> kept],
                                             [cp. PrefixItem cp \<leftarrow> kept],
                                             True, item_value (last kept)))
                         else Some ([obj. ContentItem obj \<leftarrow> allResults],
                                    [cp. PrefixItem cp \<leftarrow> allResults], False, []))))"

subsection \<open>Any other delimiter\<close>

text \<open>\<open>String.prototype.indexOf\<close> with a string argument.\<close>

fun indexOfSub :: "'a list \<Rightarrow> 'a list \<Rightarrow> nat option" where
  "indexOfSub d [] = (if d = [] then Some 0 else None)"
| "indexOfSub d (x # xs) =
     (if startsWith (x # xs) d then Some 0
      else (case indexOfSub d xs of None \<Rightarrow> None | Some i \<Rightarrow> Some (Suc i)))"

text \<open>\<open>SELECT key, size, etag, last_modified ... [AND key >= ? AND key < ?] [AND key > ?]
  ORDER BY key LIMIT ?\<close>\<close>

definition select_keys ::
  "jsstring \<Rightarrow> jsstring \<Rightarrow> jsstring \<Rightarrow> number \<Rightarrow> obj_row list \<Rightarrow> obj_row list option" where
  "select_keys bucket prefix marker lim t =
     sql_limit lim
       (sort_key o_key
          (filter (\<lambda>r. in_prefix_range prefix (o_key r) \<and> after_marker marker (o_key r))
             (bucket_rows bucket t)))"

record delim_state =
  ds_objects :: "obj_row list"
  ds_commonPrefixes :: "jsstring list"
  ds_seenPrefixes :: "jsstring list"
  ds_count :: int
  ds_isTruncated :: bool
  ds_token :: jsstring

fun delim_loop ::
  "jsstring \<Rightarrow> jsstring \<Rightarrow> number \<Rightarrow> obj_row list \<Rightarrow> delim_state \<Rightarrow> delim_state" where
  "delim_loop prefix delimiter maxKeys [] st = st"
| "delim_loop prefix delimiter maxKeys (row # rows) st =
     (if js_ge (ds_count st) maxKeys then st\<lparr>ds_isTruncated := True\<rparr>
      else
        (let keyAfterPrefix = drop (length prefix) (o_key row)
         in case indexOfSub delimiter keyAfterPrefix of
              Some delimiterIndex \<Rightarrow>
                (let commonPrefix = prefix @ take (delimiterIndex + 1) keyAfterPrefix
                 in if commonPrefix \<notin> set (ds_seenPrefixes st)
                    then delim_loop prefix delimiter maxKeys rows
                           (st\<lparr>ds_seenPrefixes := ds_seenPrefixes st @ [commonPrefix],
                              ds_commonPrefixes := ds_commonPrefixes st @ [commonPrefix],
                              ds_count := ds_count st + 1,
                              ds_token := o_key row\<rparr>)
                    else delim_loop prefix delimiter maxKeys rows st)
            | None \<Rightarrow>
                delim_loop prefix delimiter maxKeys rows
                  (st\<lparr>ds_objects := ds_objects st @ [row],
                     ds_count := ds_count st + 1,
                     ds_token := o_key row\<rparr>)))"

definition list_delimiter ::
  "jsstring \<Rightarrow> jsstring \<Rightarrow> jsstring \<Rightarrow> jsstring \<Rightarrow> number \<Rightarrow> obj_row list \<Rightarrow> listing option"
where
  "list_delimiter bucket prefix delimiter marker maxKeys t =
     (case select_keys bucket prefix marker (num_add (num_mul maxKeys 10) 1) t of
        None \<Rightarrow> None
      | Some rows \<Rightarrow>
          (let st = delim_loop prefix delimiter maxKeys rows
                      \<lparr>ds_objects = [], ds_commonPrefixes = [], ds_seenPrefixes = [],
                       ds_count = 0, ds_isTruncated = False, ds_token = []\<rparr>
           in Some (ds_objects st, ds_commonPrefixes st, ds_isTruncated st, ds_token st)))"

subsection \<open>No delimiter\<close>

definition list_plain ::
  "jsstring \<Rightarrow> jsstring \<Rightarrow> jsstring \<Rightarrow> number \<Rightarrow> obj_row list \<Rightarrow> listing option" where
  "list_plain bucket prefix marker maxKeys t =
     (case select_keys bucket prefix marker (num_add maxKeys 1) t of
        None \<Rightarrow> None
      | Some rows \<Rightarrow>
          (let isTruncated = js_gt (int (length rows)) maxKeys;
               objs = js_keep maxKeys rows
           in Some (objs, [], isTruncated,
                    if isTruncated \<and> objs \<noteq> [] then o_key (last objs) else [])))"

subsection \<open>ListObjectsV2\<close>

text \<open>\<open>params.get(name) || ""\<close> on \<open>URLSearchParams\<close>.\<close>

definition param :: "(jsstring \<times> jsstring) list \<Rightarrow> string \<Rightarrow> jsstring" where
  "param params name = (case map_of params (js name) of None \<Rightarrow> [] | Some v \<Rightarrow> v)"

definition has_param :: "(jsstring \<times> jsstring) list \<Rightarrow> string \<Rightarrow> bool" where
  "has_param params name = (js name \<in> set (map fst params))"

text \<open>\<open>parseInt\<close> is a parameter.\<close>

definition listObjectsV2 ::
  "(jsstring \<Rightarrow> number) \<Rightarrow> (jsstring \<Rightarrow> jsstring \<Rightarrow> int) \<Rightarrow> jsstring \<Rightarrow> (jsstring \<times> jsstring) list
     \<Rightarrow> store \<Rightarrow> response" where
  "listObjectsV2 parseInt lc bucket params s =
     (let prefix = param params ''prefix'';
          delimiter = param params ''delimiter'';
          maxKeys = parseInt (if param params ''max-keys'' = [] then js ''1000''
                              else param params ''max-keys'');
          startAfter = param params ''start-after'';
          continuationToken = param params ''continuation-token'';
          marker = (if continuationToken \<noteq> [] then continuationToken else startAfter)
      in case (if delimiter = [slash] then list_slash lc bucket prefix marker maxKeys (objects s)
               else if delimiter \<noteq> []
               then list_delimiter bucket prefix delimiter marker maxKeys (objects s)
               else list_plain bucket prefix marker maxKeys (objects s)) of
           None \<Rightarrow> errorResponse InternalError ''Failed to list objects'' 500
         | Some (objs, commonPrefixes, isTruncated, nextContinuationToken) \<Rightarrow>
             xmlResponse (ListBucketResult
               \<lparr>lb_name = bucket, lb_prefix = prefix,
                lb_delimiter = (if delimiter \<noteq> [] then Some delimiter else None),
                lb_key_count = length objs + length commonPrefixes,
                lb_max_keys = maxKeys,
                lb_is_truncated = isTruncated,
                lb_next_continuation_token =
                  (if nextContinuationToken \<noteq> [] \<and> isTruncated
                   then Some nextContinuationToken else None),
                lb_contents = map to_entry objs,
                lb_common_prefixes = commonPrefixes\<rparr>))"

subsection \<open>ListMultipartUploads\<close>

definition listMultipartUploads ::
  "(jsstring \<Rightarrow> number) \<Rightarrow> jsstring \<Rightarrow> (jsstring \<times> jsstring) list \<Rightarrow> store \<Rightarrow> response" where
  "listMultipartUploads parseInt bucket params s =
     (let prefix = param params ''prefix'';
          keyMarker = param params ''key-marker'';
          uploadIdMarker = param params ''upload-id-marker'';
          maxUploads = parseInt (if param params ''max-uploads'' = [] then js ''1000''
                                 else param params ''max-uploads'')
      in case sql_limit (num_add maxUploads 1)
                (sort_key (\<lambda>u. (u_key u, u_upload_id u))
                   (filter (\<lambda>u. u_bucket u = bucket
                              \<and> in_prefix_range prefix (u_key u)
                              \<and> (if keyMarker = [] then True
                                 else if uploadIdMarker \<noteq> []
                                 then keyMarker < u_key u
                                      \<or> (u_key u = keyMarker \<and> uploadIdMarker < u_upload_id u)
                                 else keyMarker < u_key u))
                      (multipart_uploads s))) of
           None \<Rightarrow> errorResponse InternalError ''Failed to list multipart uploads'' 500
         | Some rows \<Rightarrow>
             (let isTruncated = js_gt (int (length rows)) maxUploads;
                  uploads = js_keep maxUploads rows
              in xmlResponse (ListMultipartUploadsResult
                   \<lparr>lu_bucket = bucket, lu_key_marker = keyMarker,
                    lu_upload_id_marker = uploadIdMarker, lu_max_uploads = maxUploads,
                    lu_is_truncated = isTruncated,
                    lu_prefix = (if prefix \<noteq> [] then Some prefix else None),
                    lu_next_markers =
                      (if isTruncated
                       then (if uploads \<noteq> []
                             then Some (u_key (last uploads), u_upload_id (last uploads))
                             else Some ([], []))
                       else None),
                    lu_uploads = map (\<lambda>u. \<lparr>ue_key = u_key u, ue_upload_id = u_upload_id u,
                                           ue_initiated = u_created_at u\<rparr>) uploads\<rparr>)))"

section \<open>The request router\<close>

text \<open>What the engine reads of a request and its URL. The platform functions that the
  source calls and does not define are the fields of \<open>platform\<close>; \<open>None\<close> is a thrown
  exception. The values the engine draws from the clock and the random generator
  during one request are the fields of \<open>draw\<close>.\<close>

record request =
  req_method :: jsstring
  req_pathname :: jsstring
  req_search :: jsstring
  req_searchParams :: "(jsstring \<times> jsstring) list"
  req_upgrade :: "jsstring option"
  req_authorization :: "jsstring option"
  req_content_type :: "jsstring option"
  req_copy_source :: "jsstring option"
  req_body :: bytes

text \<open>The parsed token payload as far as \<open>fetch\<close> reads it: \<open>null\<close>, on which reading
  \<open>.sub\<close> throws, or any other value, with the truthiness of its \<open>.sub\<close>.\<close>

datatype json = JNull | JValue bool

record jwt_payload =
  jp_sub :: "jsstring option"
  jp_bucket :: "jsstring option"
  jp_exp :: int
  jp_iat :: int

record platform =
  pf_md5 :: "bytes \<Rightarrow> jsstring"
  pf_decodeURIComponent :: "jsstring \<Rightarrow> jsstring option"
  pf_parseInt :: "jsstring \<Rightarrow> number"
  pf_localeCompare :: "jsstring \<Rightarrow> jsstring \<Rightarrow> int"
  pf_atob :: "jsstring \<Rightarrow> jsstring option"
  pf_JSON_parse :: "jsstring \<Rightarrow> json option"
  pf_jwtVerify :: "jsstring \<Rightarrow> jsstring \<Rightarrow> jwt_payload option"
  pf_S3_JWT_SECRET :: "jsstring option"

record draw =
  dr_now :: jsstring
  dr_uuid :: jsstring
  dr_duration :: int
  dr_timestamp :: jsstring
  dr_socket :: nat
  dr_send_throws :: "nat \<Rightarrow> bool"

definition truthy :: "jsstring option \<Rightarrow> bool" where
  "truthy v = (case v of None \<Rightarrow> False | Some x \<Rightarrow> x \<noteq> [])"

definition handleRequest ::
  "platform \<Rightarrow> draw \<Rightarrow> jsstring \<Rightarrow> jsstring \<Rightarrow> request \<Rightarrow> store \<Rightarrow> response \<times> store" where
  "handleRequest P d bucket key req s =
     (let method = req_method req;
          params = req_searchParams req;
          uploadId = map_of params (js ''uploadId'');
          copySource = req_copy_source req
      in if method = js ''HEAD'' \<and> key = [] then (headBucket bucket, s)
         else if method = js ''GET'' \<and> key = [] \<and> has_param params ''uploads''
         then (listMultipartUploads (pf_parseInt P) bucket params s, s)
         else if method = js ''GET'' \<and> key = []
         then (listObjectsV2 (pf_parseInt P) (pf_localeCompare P) bucket params s, s)
         else if (method = js ''GET'' \<or> method = js ''HEAD'') \<and> key \<noteq> []
         then (getObject s bucket key (method = js ''HEAD''), s)
         else if key \<noteq> [] \<and> method = js ''POST'' \<and> has_param params ''uploads''
         then createMultipartUpload (dr_uuid d) (dr_now d) bucket key (req_content_type req) s
         else if key \<noteq> [] \<and> method = js ''PUT'' \<and> truthy uploadId
                 \<and> has_param params ''partNumber''
         then uploadPart (pf_md5 P) bucket key (param params ''uploadId'')
                (pf_parseInt P (param params ''partNumber'')) (req_body req) s
         else if key \<noteq> [] \<and> method = js ''POST'' \<and> truthy uploadId
         then completeMultipartUpload (dr_uuid d) (dr_now d) bucket key
                (param params ''uploadId'') s
         else if key \<noteq> [] \<and> method = js ''DELETE'' \<and> truthy uploadId
         then abortMultipartUpload (param params ''uploadId'') s
         else if method = js ''PUT'' \<and> key \<noteq> [] \<and> truthy copySource
         then copyObject (pf_decodeURIComponent P) (dr_now d) bucket key
                (case copySource of None \<Rightarrow> [] | Some c \<Rightarrow> c) s
         else if method = js ''PUT'' \<and> key \<noteq> []
         then putObject (pf_md5 P) (dr_now d) bucket key (req_body req) (req_content_type req) s
         else if method = js ''DELETE'' \<and> key \<noteq> []
         then deleteObject bucket key s
         else (errorResponse NotImplemented ''Operation not implemented'' 501, s))"

section \<open>Authentication\<close>

fun split :: "'a \<Rightarrow> 'a list \<Rightarrow> 'a list list" where
  "split c [] = [[]]"
| "split c (x # xs) =
     (if x = c then [] # split c xs
      else (case split c xs of [] \<Rightarrow> [[x]] | p # ps \<Rightarrow> (x # p) # ps))"

text \<open>\<open>authHeader.match(/Credential=([^\/,]+)/)\<close>: the first group of the leftmost match.\<close>

fun credentialMatch :: "jsstring \<Rightarrow> jsstring option" where
  "credentialMatch [] = None"
| "credentialMatch (c # cs) =
     (let grp = takeWhile (\<lambda>x. x \<noteq> slash \<and> x \<noteq> 44) (drop (length (js ''Credential='')) (c # cs))
      in if startsWith (c # cs) (js ''Credential='') \<and> grp \<noteq> [] then Some grp
         else credentialMatch cs)"

text \<open>\<open>verifyToken\<close> of the token library: the first secret under which the token
  verifies and carries \<open>sub\<close> and \<open>bucket\<close>; \<open>None\<close> is \<open>throw new Error("Invalid token")\<close>.\<close>

fun verifyToken ::
  "(jsstring \<Rightarrow> jsstring \<Rightarrow> jwt_payload option) \<Rightarrow> jsstring \<Rightarrow> jsstring list \<Rightarrow> jwt_payload option"
where
  "verifyToken jwtVerify token [] = None"
| "verifyToken jwtVerify token (secret # secrets) =
     (case jwtVerify token secret of
        None \<Rightarrow> verifyToken jwtVerify token secrets
      | Some payload \<Rightarrow>
          if \<not> truthy (jp_sub payload) \<or> \<not> truthy (jp_bucket payload)
          then verifyToken jwtVerify token secrets
          else Some payload)"

text \<open>The key of the request: what follows \<open>/<bucket>/\<close> in the path, decoded once.
  \<open>None\<close> is the \<open>URIError\<close> of \<open>decodeURIComponent\<close>.\<close>

definition extract_key :: "platform \<Rightarrow> jsstring \<Rightarrow> jsstring \<Rightarrow> jsstring option" where
  "extract_key P pathname bucket =
     (let bucketPrefix = slash # bucket
      in if startsWith pathname (bucketPrefix @ [slash])
         then pf_decodeURIComponent P (drop (length bucketPrefix + 1) pathname)
         else Some [])"

section \<open>The activity broadcaster and \<open>fetch\<close>\<close>

record event =
  ev_method :: jsstring
  ev_path :: jsstring
  ev_status :: nat
  ev_duration :: int
  ev_timestamp :: jsstring

record engine =
  sql :: store
  webSocketClients :: "nat list"

text \<open>The outcome of \<open>fetch\<close>: a response, or an exception that leaves \<open>fetch\<close>
  uncaught.\<close>

datatype outcome = Responded response | Uncaught

text \<open>A subscriber is the number of its socket; the set keeps insertion order.\<close>

definition handleWebSocketUpgrade :: "draw \<Rightarrow> engine \<Rightarrow> outcome \<times> engine \<times> (nat \<times> event) list" where
  "handleWebSocketUpgrade d e =
     (Responded (emptyResponse 101),
      e\<lparr>webSocketClients :=
          (if dr_socket d \<in> set (webSocketClients e) then webSocketClients e
           else webSocketClients e @ [dr_socket d])\<rparr>,
      [])"

text \<open>The first loop of \<open>broadcastRequestInfo\<close>: the sockets to remove and the messages
  delivered.\<close>

fun send_all :: "(nat \<Rightarrow> bool) \<Rightarrow> event \<Rightarrow> nat list \<Rightarrow> nat list \<times> (nat \<times> event) list" where
  "send_all throws info [] = ([], [])"
| "send_all throws info (ws # rest) =
     (case send_all throws info rest of
        (toRemove, sent) \<Rightarrow>
          if throws ws then (ws # toRemove, sent) else (toRemove, (ws, info) # sent))"

definition broadcastRequestInfo ::
  "(nat \<Rightarrow> bool) \<Rightarrow> event \<Rightarrow> nat list \<Rightarrow> nat list \<times> (nat \<times> event) list" where
  "broadcastRequestInfo throws info clients =
     (case send_all throws info clients of
        (toRemove, sent) \<Rightarrow> (filter (\<lambda>ws. ws \<notin> set toRemove) clients, sent))"

definition unauthorized :: "string \<Rightarrow> engine \<Rightarrow> outcome \<times> engine \<times> (nat \<times> event) list" where
  "unauthorized message e = (Responded (errorResponse Unauthorized message 401), e, [])"

text \<open>The token of the \<open>Authorization\<close> header, or the response that refuses it.\<close>

definition extract_token :: "jsstring \<Rightarrow> string + jsstring" where
  "extract_token authHeader =
     (if startsWith authHeader (js ''Bearer '') then Inr (drop 7 authHeader)
      else if startsWith authHeader (js ''AWS4-HMAC-SHA256'')
      then (case credentialMatch authHeader of
              None \<Rightarrow> Inl ''Invalid AWS authorization format''
            | Some token \<Rightarrow> Inr token)
      else Inl ''Unsupported authorization type'')"

definition fetch ::
  "platform \<Rightarrow> draw \<Rightarrow> request \<Rightarrow> engine \<Rightarrow> outcome \<times> engine \<times> (nat \<times> event) list" where
  "fetch P d req e =
     (if req_upgrade req = Some (js ''websocket'') then handleWebSocketUpgrade d e
      else
        (case filter (\<lambda>p. p \<noteq> []) (split slash (req_pathname req)) of
           [] \<Rightarrow> (Responded (errorResponse NoSuchBucket ''No bucket specified'' 404), e, [])
         | bucket # _ \<Rightarrow>
             if \<not> truthy (req_authorization req) then unauthorized ''Missing authorization'' e
             else
               (case extract_token (case req_authorization req of None \<Rightarrow> [] | Some h \<Rightarrow> h) of
                  Inl message \<Rightarrow> unauthorized message e
                | Inr token \<Rightarrow>
                    if token = js ''foo''
                    then (case extract_key P (req_pathname req) bucket of
                            None \<Rightarrow> (Uncaught, e, [])
                          | Some key \<Rightarrow>
                              (case handleRequest P d bucket key req (sql e) of
                                 (response, s') \<Rightarrow> (Responded response, e\<lparr>sql := s'\<rparr>, [])))
                    else
                      (let parts = split 46 token
                       in if length parts \<noteq> 3 then unauthorized ''Invalid token format'' e
                          else
                            (case pf_atob P (parts ! 1) of
                               None \<Rightarrow> (Uncaught, e, [])
                             | Some decoded \<Rightarrow>
                                 (case pf_JSON_parse P decoded of
                                    None \<Rightarrow> (Uncaught, e, [])
                                  | Some JNull \<Rightarrow> (Uncaught, e, [])
                                  | Some (JValue terminalName) \<Rightarrow>
                                      if \<not> terminalName
                                      then unauthorized ''Invalid token claims'' e
                                      else
                                        (let secret =
                                               (if truthy (pf_S3_JWT_SECRET P)
                                                then (case pf_S3_JWT_SECRET P of
                                                        None \<Rightarrow> [] | Some x \<Rightarrow> x)
                                                else js ''demo-secret-change-in-production'')
                                         in case verifyToken (pf_jwtVerify P) token [secret] of
                                              None \<Rightarrow> unauthorized ''Invalid token'' e
                                            | Some payload \<Rightarrow>
                                                if jp_bucket payload \<noteq> Some bucket
                                                then (Responded (errorResponse Forbidden
                                                        ''Token not valid for this bucket'' 403),
                                                      e, [])
                                                else
                                                  (case extract_key P (req_pathname req) bucket of
                                                     None \<Rightarrow> (Uncaught, e, [])
                                                   | Some key \<Rightarrow>
                                                       (case handleRequest P d bucket key req
                                                               (sql e) of
                                                          (response, s') \<Rightarrow>
                                                            (case broadcastRequestInfo
                                                                    (dr_send_throws d)
                                                                    \<lparr>ev_method = req_method req,
                                                                     ev_path = req_pathname req
                                                                                @ req_search req,
                                                                     ev_status = status response,
                                                                     ev_duration = dr_duration d,
                                                                     ev_timestamp = dr_timestamp d\<rparr>
                                                                    (webSocketClients e) of
                                                               (clients, sent) \<Rightarrow>
                                                                 (Responded response,
                                                                  e\<lparr>sql := s',
                                                                    webSocketClients := clients\<rparr>,
                                                                  sent)))))))))))"

section \<open>Auxiliary definitions for the proofs\<close>

text \<open>The slices that the chunk loops cut from a body, from \<open>offset\<close> on.\<close>

function chunks_from :: "bytes \<Rightarrow> nat \<Rightarrow> bytes list" where
  "chunks_from dataArray offset =
     (if offset < length dataArray
      then slice offset (min (offset + CHUNK_SIZE) (length dataArray)) dataArray
             # chunks_from dataArray (offset + CHUNK_SIZE)
      else [])"
  by pat_completeness auto
termination
  by (relation "measure (\<lambda>(dataArray, offset). length dataArray - offset)")
     (auto simp: CHUNK_SIZE_def)

declare chunks_from.simps [simp del]
declare put_chunks.simps [simp del]
declare upload_chunks.simps [simp del]

definition put_rows :: "jsstring \<Rightarrow> jsstring \<Rightarrow> nat \<Rightarrow> bytes list \<Rightarrow> obj_row list" where
  "put_rows bucket key chunkIndex ds =
     map (\<lambda>(i, d). chunk_row bucket key i d) (enumerate chunkIndex ds)"

definition content_type_or_default :: "jsstring option \<Rightarrow> jsstring" where
  "content_type_or_default h =
     (case h of None \<Rightarrow> js ''application/octet-stream''
      | Some c \<Rightarrow> if c = [] then js ''application/octet-stream'' else c)"

definition put_object_rows ::
  "(bytes \<Rightarrow> jsstring) \<Rightarrow> jsstring \<Rightarrow> jsstring \<Rightarrow> jsstring \<Rightarrow> bytes \<Rightarrow> jsstring option \<Rightarrow> obj_row list"
where
  "put_object_rows md5 now bucket key data h =
     meta_row bucket key (length data) (md5 data) now (content_type_or_default h)
       (take CHUNK_SIZE data)
     # put_rows bucket key 1 (chunks_from data CHUNK_SIZE)"

definition part_rows :: "jsstring \<Rightarrow> int \<Rightarrow> nat \<Rightarrow> bytes list \<Rightarrow> part_row list" where
  "part_rows uploadId partNumber chunkIndex ds =
     map (\<lambda>(i, d). part_chunk_row uploadId partNumber i 0 [] d) (enumerate chunkIndex ds)"

definition upload_part_rows ::
  "(bytes \<Rightarrow> jsstring) \<Rightarrow> jsstring \<Rightarrow> int \<Rightarrow> bytes \<Rightarrow> part_row list" where
  "upload_part_rows md5 uploadId partNumber data =
     part_chunk_row uploadId partNumber 0 (length data) (md5 data) (take CHUNK_SIZE data)
     # part_rows uploadId partNumber 1 (chunks_from data CHUNK_SIZE)"

definition delete_part_rows :: "jsstring \<Rightarrow> int \<Rightarrow> part_row list \<Rightarrow> part_row list" where
  "delete_part_rows uploadId partNumber t = filter (\<lambda>r. \<not> is_part uploadId partNumber r) t"

text \<open>A request with no headers and no body, for the closed instances below.\<close>

definition bare_request :: "string \<Rightarrow> string \<Rightarrow> request" where
  "bare_request method pathname =
     \<lparr>req_method = js method, req_pathname = js pathname, req_search = [],
      req_searchParams = [], req_upgrade = None, req_authorization = None,
      req_content_type = None, req_copy_source = None, req_body = []\<rparr>"

text \<open>A platform for the closed instances below: \<open>atob\<close> throws on a string that
  holds \<open>!\<close>, which is not in the base64 alphabet; no token verifies.\<close>

definition null_platform :: platform where
  "null_platform =
     \<lparr>pf_md5 = (\<lambda>_. js ''d41d8cd9''), pf_decodeURIComponent = Some, pf_parseInt = (\<lambda>_. Num 1000),
      pf_localeCompare = (\<lambda>a b. if a < b then -1 else if a = b then 0 else 1),
      pf_atob = (\<lambda>s. if 33 \<in> set s then None else Some s), pf_JSON_parse = (\<lambda>_. None),
      pf_jwtVerify = (\<lambda>_ _. None),
      pf_S3_JWT_SECRET = None\<rparr>"

definition draw0 :: draw where
  "draw0 = \<lparr>dr_now = js ''2024-01-01T00:00:00.000Z'', dr_uuid = js ''u-1'', dr_duration = 12,
            dr_timestamp = js ''2024-01-01T00:00:00.012Z'', dr_socket = 7,
            dr_send_throws = (\<lambda>_. False)\<rparr>"

definition engine0 :: engine where
  "engine0 = \<lparr>sql = empty_store, webSocketClients = []\<rparr>"

definition md5c :: "bytes \<Rightarrow> jsstring" where
  "md5c data = js ''00000000000000000000000000000000''"

definition now0 :: jsstring where
  "now0 = js ''2024-01-01T00:00:00.000Z''"

definition store_deep :: store where
  "store_deep = snd (putObject md5c now0 (js ''b'') (js ''a/b/c.txt'') [1] None empty_store)"

definition store_marker :: store where
  "store_marker = snd (putObject md5c now0 (js ''b'') (js ''a/'') [] None empty_store)"

definition store_ffff :: store where
  "store_ffff = snd (putObject md5c now0 (js ''b'') [95, 65535, 97] [1] None empty_store)"

definition engine1 :: engine where
  "engine1 = \<lparr>sql = empty_store, webSocketClients = [7]\<rparr>"

text \<open>The object rows that \<open>completeMultipartUpload\<close> writes for a list of part chunks.\<close>

definition complete_row :: "obj_row \<Rightarrow> nat \<Rightarrow> part_row \<Rightarrow> obj_row" where
  "complete_row meta i c =
     (if i = 0 then meta\<lparr>o_data := p_data c\<rparr>
      else chunk_row (o_bucket meta) (o_key meta) i (p_data c))"

definition complete_rows :: "obj_row \<Rightarrow> nat \<Rightarrow> part_row list \<Rightarrow> obj_row list" where
  "complete_rows meta i chunks = map (\<lambda>(j, c). complete_row meta j c) (enumerate i chunks)"

definition all_part_chunks :: "jsstring \<Rightarrow> part_row list \<Rightarrow> part_row list \<Rightarrow> part_row list" where
  "all_part_chunks uploadId pt parts =
     concat (map (\<lambda>part. select_part_chunks uploadId (p_part_number part) pt) parts)"

definition complete_meta ::
  "jsstring \<Rightarrow> jsstring \<Rightarrow> jsstring \<Rightarrow> jsstring \<Rightarrow> upload_row \<Rightarrow> part_row list \<Rightarrow> obj_row" where
  "complete_meta uuid now bucket key upload parts =
     meta_row bucket key (sum_list (map p_size parts))
       (filter (\<lambda>c. c \<noteq> 45) uuid @ js ''-'' @ decimal (length parts)) now
       (u_content_type upload) []"

text \<open>The chunk layout that every writer of the store keeps: the chunk indices of an
  object (of a part) are \<open>0, 1, ..., n - 1\<close>, chunk 0 records the number of bytes that all
  its chunks hold together, and no chunk holds more than \<open>CHUNK_SIZE\<close> bytes.\<close>

definition chunks_ok :: "nat list \<Rightarrow> nat \<Rightarrow> bytes list \<Rightarrow> bool" where
  "chunks_ok idx sz ds =
     (idx = [0..<length ds] \<and> sz = length (concat ds)
      \<and> list_all (\<lambda>d. length d \<le> CHUNK_SIZE) ds)"

definition object_ok :: "obj_row list \<Rightarrow> jsstring \<Rightarrow> jsstring \<Rightarrow> bool" where
  "object_ok t bucket key =
     (case select_chunks bucket key t of
        [] \<Rightarrow> True
      | c0 # cs \<Rightarrow> chunks_ok (map o_chunk_index (c0 # cs)) (o_size c0) (map o_data (c0 # cs)))"

definition objects_ok :: "obj_row list \<Rightarrow> bool" where
  "objects_ok t = list_all (\<lambda>r. object_ok t (o_bucket r) (o_key r)) t"

definition part_ok :: "part_row list \<Rightarrow> jsstring \<Rightarrow> int \<Rightarrow> bool" where
  "part_ok pt uploadId partNumber =
     (case select_part_chunks uploadId partNumber pt of
        [] \<Rightarrow> True
      | c0 # cs \<Rightarrow> chunks_ok (map p_chunk_index (c0 # cs)) (p_size c0) (map p_data (c0 # cs)))"

definition parts_ok :: "part_row list \<Rightarrow> bool" where
  "parts_ok pt = list_all (\<lambda>r. part_ok pt (p_upload_id r) (p_part_number r)) pt"

definition store_ok :: "store \<Rightarrow> bool" where
  "store_ok s = (objects_ok (objects s) \<and> parts_ok (multipart_parts s))"

text \<open>The row that \<open>copyObject\<close> writes for a source chunk.\<close>

definition copy_row :: "jsstring \<Rightarrow> jsstring \<Rightarrow> obj_row \<Rightarrow> jsstring \<Rightarrow> obj_row \<Rightarrow> obj_row" where
  "copy_row bucket destKey sourceMeta lastModified chunk =
     (if o_chunk_index chunk = 0
      then meta_row bucket destKey (o_size sourceMeta) (o_etag sourceMeta) lastModified
             (o_content_type sourceMeta) (o_data chunk)
      else chunk_row bucket destKey (o_chunk_index chunk) (o_data chunk))"

text \<open>The requests that write to the store, with the values each one draws from the
  clock and the random generator, and the states they reach from the empty store. The
  arguments of each request are those of its handler, in the handler's order; the part
  number of an UploadPart is whatever \<open>parseInt\<close> returned, \<open>NaN\<close> included.\<close>

datatype op =
  OpPut jsstring jsstring jsstring bytes "jsstring option"
  | OpCopy jsstring jsstring jsstring jsstring
  | OpDelete jsstring jsstring
  | OpCreate jsstring jsstring jsstring jsstring "jsstring option"
  | OpUploadPart jsstring jsstring jsstring number bytes
  | OpComplete jsstring jsstring jsstring jsstring jsstring
  | OpAbort jsstring

fun apply_op :: "(bytes \<Rightarrow> jsstring) \<Rightarrow> (jsstring \<Rightarrow> jsstring option) \<Rightarrow> store \<Rightarrow> op \<Rightarrow> store"
where
  "apply_op md5 decode s (OpPut now bucket key data h) =
     snd (putObject md5 now bucket key data h s)"
| "apply_op md5 decode s (OpCopy now bucket destKey copySource) =
     snd (copyObject decode now bucket destKey copySource s)"
| "apply_op md5 decode s (OpDelete bucket key) = snd (deleteObject bucket key s)"
| "apply_op md5 decode s (OpCreate uuid now bucket key h) =
     snd (createMultipartUpload uuid now bucket key h s)"
| "apply_op md5 decode s (OpUploadPart bucket key uploadId partNumber data) =
     snd (uploadPart md5 bucket key uploadId partNumber data s)"
| "apply_op md5 decode s (OpComplete uuid now bucket key uploadId) =
     snd (completeMultipartUpload uuid now bucket key uploadId s)"
| "apply_op md5 decode s (OpAbort uploadId) = snd (abortMultipartUpload uploadId s)"

definition run :: "(bytes \<Rightarrow> jsstring) \<Rightarrow> (jsstring \<Rightarrow> jsstring option) \<Rightarrow> op list \<Rightarrow> store" where
  "run md5 decode ops = foldl (apply_op md5 decode) empty_store ops"

text \<open>The layout as the specification words it: for every stored object of total size
  \<open>size\<close>, the rows with \<open>chunk_index \<ge> 1\<close> are none, or \<open>size > CHUNK_SIZE\<close> and
  their indices are \<open>1, 2, ..., \<lceil>size / CHUNK_SIZE\<rceil> - 1\<close>.\<close>

definition spec_chunk_layout :: "obj_row list \<Rightarrow> bool" where
  "spec_chunk_layout t =
     list_all
       (\<lambda>r0. let later = filter (\<lambda>i. 1 \<le> i)
                            (map o_chunk_index (select_chunks (o_bucket r0) (o_key r0) t))
             in later = []
                \<or> (CHUNK_SIZE < o_size r0
                   \<and> later = [1..<(o_size r0 + CHUNK_SIZE - 1) div CHUNK_SIZE]))
       (filter (\<lambda>r. o_chunk_index r = 0) t)"

text \<open>A multipart upload of two one-byte parts.\<close>

definition two_small_parts :: "op list" where
  "two_small_parts =
     [OpCreate (js ''u-1'') now0 (js ''b'') (js ''m.txt'') None,
      OpUploadPart (js ''b'') (js ''m.txt'') (js ''u-1'') (Num 1) [1],
      OpUploadPart (js ''b'') (js ''m.txt'') (js ''u-1'') (Num 2) [2],
      OpComplete (js ''e1'') now0 (js ''b'') (js ''m.txt'') (js ''u-1'')]"

text \<open>The two rows that the upload \<open>two_small_parts\<close> leaves in the objects table.\<close>

definition assembled_rows :: "obj_row list" where
  "assembled_rows =
     [meta_row (js ''b'') (js ''m.txt'') 2 (js ''e1-2'') now0 (js ''application/octet-stream'') [1],
      chunk_row (js ''b'') (js ''m.txt'') 1 [2]]"

text \<open>One multipart upload session: the session is created and the parts \<open>ups\<close> (part
  number and bytes) are uploaded in the order given.\<close>

definition upload_all ::
  "(bytes \<Rightarrow> jsstring) \<Rightarrow> jsstring \<Rightarrow> jsstring \<Rightarrow> jsstring \<Rightarrow> (int \<times> bytes) list \<Rightarrow> store \<Rightarrow> store"
where
  "upload_all md5 bucket key uploadId ups s =
     foldl (\<lambda>s' (n, data). snd (uploadPart md5 bucket key uploadId (Num n) data s')) s ups"

definition session ::
  "(bytes \<Rightarrow> jsstring) \<Rightarrow> jsstring \<Rightarrow> jsstring \<Rightarrow> jsstring \<Rightarrow> jsstring \<Rightarrow> jsstring option
     \<Rightarrow> (int \<times> bytes) list \<Rightarrow> store \<Rightarrow> store" where
  "session md5 uploadId now bucket key h ups s =
     upload_all md5 bucket key uploadId ups
       (snd (createMultipartUpload uploadId now bucket key h s))"

text \<open>The parts' bytes in ascending part-number order, as the claim words it; a part
  number uploaded more than once counts with its latest bytes.\<close>

definition latest_part :: "(int \<times> bytes) list \<Rightarrow> int \<Rightarrow> bytes" where
  "latest_part ups n = (case map_of (rev ups) n of None \<Rightarrow> [] | Some data \<Rightarrow> data)"

definition parts_in_order :: "(int \<times> bytes) list \<Rightarrow> bytes" where
  "parts_in_order ups = concat (map (latest_part ups) (sort (remdups (map fst ups))))"

definition is_chunk0_of :: "jsstring \<Rightarrow> part_row \<Rightarrow> bool" where
  "is_chunk0_of uploadId r = (p_upload_id r = uploadId \<and> p_chunk_index r = 0)"

section \<open>Properties\<close>

subsection \<open>Cutting a body into chunks\<close>

lemma CHUNK_SIZE_pos: "0 < CHUNK_SIZE"
  by (simp add: CHUNK_SIZE_def)

lemma combine_chunks_concat:
  "combine_chunks (pre @ replicate (length (concat cs)) 0) (length pre) cs = Some (pre @ concat cs)"
proof (induction cs arbitrary: pre)
  case Nil
  then show ?case by simp
next
  case (Cons c cs)
  have "typed_array_set (pre @ replicate (length c + length (concat cs)) 0) c (length pre)
          = Some ((pre @ c) @ replicate (length (concat cs)) 0)"
    by (simp add: typed_array_set_def)
  with Cons.IH[of "pre @ c"] show ?case by simp
qed

lemma combine_chunks_exact:
  "length (concat cs) = n \<Longrightarrow> combine_chunks (replicate n 0) 0 cs = Some (concat cs)"
  using combine_chunks_concat[of "[]" cs] by simp

lemma slice_chunk:
  "offset < length xs \<Longrightarrow>
   slice offset (min (offset + CHUNK_SIZE) (length xs)) xs = take CHUNK_SIZE (drop offset xs)"
  by (auto simp: slice_def min_def)

lemma concat_chunks_from: "concat (chunks_from xs offset) = drop offset xs"
proof (induction xs offset rule: chunks_from.induct)
  case (1 xs offset)
  show ?case
  proof (cases "offset < length xs")
    case True
    have "take CHUNK_SIZE (drop offset xs) @ drop (offset + CHUNK_SIZE) xs = drop offset xs"
      by (metis add.commute append_take_drop_id drop_drop)
    with True 1 show ?thesis
      by (subst chunks_from.simps) (simp add: slice_chunk)
  next
    case False
    then show ?thesis by (subst chunks_from.simps) simp
  qed
qed

lemma chunks_from_bounded: "c \<in> set (chunks_from xs offset) \<Longrightarrow> length c \<le> CHUNK_SIZE"
proof (induction xs offset rule: chunks_from.induct)
  case (1 xs offset)
  from "1.prems" show ?case
    by (subst (asm) chunks_from.simps) (auto simp: slice_chunk "1.IH" split: if_splits)
qed

lemma div_step: "0 < (c::nat) \<Longrightarrow> (a + c) div c = Suc (a div c)"
  by (metis Suc_eq_plus1 div_add_self2 less_numeral_extra(3))

lemma length_chunks_from:
  "length (chunks_from xs offset) = (length xs - offset + CHUNK_SIZE - 1) div CHUNK_SIZE"
proof (induction xs offset rule: chunks_from.induct)
  case (1 xs offset)
  show ?case
  proof (cases "offset < length xs")
    case True
    then have "length (chunks_from xs offset) = Suc (length (chunks_from xs (offset + CHUNK_SIZE)))"
      by (subst chunks_from.simps) simp
    also have "\<dots> = Suc ((length xs - (offset + CHUNK_SIZE) + CHUNK_SIZE - 1) div CHUNK_SIZE)"
      using True "1.IH" by (simp only:)
    also have "\<dots> = (length xs - offset + CHUNK_SIZE - 1) div CHUNK_SIZE"
    proof (cases "offset + CHUNK_SIZE \<le> length xs")
      case True
      define a where "a = length xs - (offset + CHUNK_SIZE) + CHUNK_SIZE - 1"
      have "length xs - offset + CHUNK_SIZE - 1 = a + CHUNK_SIZE"
        unfolding a_def using True CHUNK_SIZE_pos by linarith
      then have "(length xs - offset + CHUNK_SIZE - 1) div CHUNK_SIZE = (a + CHUNK_SIZE) div CHUNK_SIZE"
        by (simp only:)
      also have "\<dots> = Suc (a div CHUNK_SIZE)"
        using CHUNK_SIZE_pos by (rule div_step)
      finally show ?thesis unfolding a_def by (simp only:)
    next
      case False
      define a where "a = length xs - offset - 1"
      have a: "a < CHUNK_SIZE" and b: "length xs - offset + CHUNK_SIZE - 1 = a + CHUNK_SIZE"
        and c: "length xs - (offset + CHUNK_SIZE) + CHUNK_SIZE - 1 < CHUNK_SIZE"
        unfolding a_def using False \<open>offset < length xs\<close> CHUNK_SIZE_pos by linarith+
      from b have "(length xs - offset + CHUNK_SIZE - 1) div CHUNK_SIZE = (a + CHUNK_SIZE) div CHUNK_SIZE"
        by (simp only:)
      also have "\<dots> = Suc (a div CHUNK_SIZE)"
        using CHUNK_SIZE_pos by (rule div_step)
      also have "\<dots> = Suc 0" using a by simp
      finally have r: "(length xs - offset + CHUNK_SIZE - 1) div CHUNK_SIZE = Suc 0" .
      from c have l: "(length xs - (offset + CHUNK_SIZE) + CHUNK_SIZE - 1) div CHUNK_SIZE = 0"
        by (rule div_less)
      show ?thesis by (simp only: l r)
    qed
    finally show ?thesis .
  next
    case False
    then show ?thesis using CHUNK_SIZE_pos by (subst chunks_from.simps) simp
  qed
qed

subsection \<open>The rows that PutObject writes\<close>

lemma insert_object_fresh:
  "obj_pk r \<notin> obj_pk ` set t \<Longrightarrow> insert_object r t = Some (t @ [r])"
  by (simp add: insert_object_def)

lemma put_rows_Nil [simp]: "put_rows bucket key i [] = []"
  by (simp add: put_rows_def)

lemma put_rows_Cons [simp]:
  "put_rows bucket key i (d # ds) = chunk_row bucket key i d # put_rows bucket key (Suc i) ds"
  by (simp add: put_rows_def)

lemma put_chunks_eq:
  "(\<And>r. r \<in> set t \<Longrightarrow> is_object bucket key r \<Longrightarrow> o_chunk_index r < chunkIndex) \<Longrightarrow>
   put_chunks bucket key xs offset chunkIndex t
     = Inr (t @ put_rows bucket key chunkIndex (chunks_from xs offset))"
proof (induction bucket key xs offset chunkIndex t rule: put_chunks.induct)
  case (1 bucket key xs offset chunkIndex t)
  show ?case
  proof (cases "offset < length xs")
    case False
    then show ?thesis
      by (subst put_chunks.simps, subst chunks_from.simps) simp
  next
    case True
    define chunk where "chunk = slice offset (min (offset + CHUNK_SIZE) (length xs)) xs"
    define row where "row = chunk_row bucket key chunkIndex chunk"
    have fresh: "obj_pk row \<notin> obj_pk ` set t"
    proof
      assume "obj_pk row \<in> obj_pk ` set t"
      then obtain r where r: "r \<in> set t" "obj_pk r = obj_pk row" by auto
      then have "is_object bucket key r" "o_chunk_index r = chunkIndex"
        by (auto simp: obj_pk_def row_def chunk_row_def is_object_def)
      with "1.prems"[OF r(1)] show False by simp
    qed
    then have ins: "insert_object row t = Some (t @ [row])"
      by (rule insert_object_fresh)
    have "put_chunks bucket key xs (offset + CHUNK_SIZE) (chunkIndex + 1) (t @ [row])
            = Inr ((t @ [row]) @ put_rows bucket key (chunkIndex + 1) (chunks_from xs (offset + CHUNK_SIZE)))"
    proof (rule "1.IH"[OF True refl, of chunk "t @ [row]"])
      show "chunk = slice offset (min (offset + CHUNK_SIZE) (length xs)) xs"
        by (simp add: chunk_def)
      show "insert_object (chunk_row bucket key chunkIndex chunk) t = Some (t @ [row])"
        using ins by (simp add: row_def)
      fix r assume "r \<in> set (t @ [row])" "is_object bucket key r"
      then show "o_chunk_index r < chunkIndex + 1"
        using "1.prems"[of r] by (auto simp: row_def chunk_row_def less_Suc_eq)
    qed
    moreover have "chunks_from xs offset = chunk # chunks_from xs (offset + CHUNK_SIZE)"
      using True by (subst chunks_from.simps) (simp add: chunk_def)
    ultimately show ?thesis
      using True ins
      by (subst put_chunks.simps) (simp add: chunk_def[symmetric] row_def[symmetric] Let_def)
  qed
qed

lemma put_rows_is_object: "r \<in> set (put_rows bucket key i ds) \<Longrightarrow> is_object bucket key r"
  by (induction ds arbitrary: i) (auto simp: chunk_row_def is_object_def)

lemma put_rows_index: "map o_chunk_index (put_rows bucket key i ds) = [i..<i + length ds]"
  by (induction ds arbitrary: i) (auto simp: chunk_row_def upt_rec)

lemma put_rows_data: "map o_data (put_rows bucket key i ds) = ds"
  by (induction ds arbitrary: i) (auto simp: chunk_row_def)

lemma delete_object_rows_none:
  "r \<in> set (delete_object_rows bucket key t) \<Longrightarrow> \<not> is_object bucket key r"
  by (simp add: delete_object_rows_def)

lemma putObject_eq:
  "putObject md5 now bucket key data h s
     = (etagResponse (md5 data),
        s\<lparr>objects := delete_object_rows bucket key (objects s)
                       @ put_object_rows md5 now bucket key data h\<rparr>)"
proof -
  define t1 where "t1 = delete_object_rows bucket key (objects s)"
  define m where "m = meta_row bucket key (length data) (md5 data) now (content_type_or_default h)
                        (take CHUNK_SIZE data)"
  have first: "(if length data = 0 then [] else slice 0 (min CHUNK_SIZE (length data)) data)
                 = take CHUNK_SIZE data"
    by (auto simp: slice_def min_def)
  have "obj_pk m \<notin> obj_pk ` set t1"
    using delete_object_rows_none[of _ bucket key "objects s"]
    by (auto simp: t1_def m_def obj_pk_def meta_row_def is_object_def)
  then have ins: "insert_object m t1 = Some (t1 @ [m])"
    by (rule insert_object_fresh)
  have loop: "put_chunks bucket key data CHUNK_SIZE 1 (t1 @ [m])
                = Inr ((t1 @ [m]) @ put_rows bucket key 1 (chunks_from data CHUNK_SIZE))"
  proof (rule put_chunks_eq)
    fix r assume "r \<in> set (t1 @ [m])" "is_object bucket key r"
    then show "o_chunk_index r < 1"
      using delete_object_rows_none[of r bucket key "objects s"]
      by (auto simp: t1_def m_def meta_row_def)
  qed
  have small: "\<not> CHUNK_SIZE < length data \<Longrightarrow> chunks_from data CHUNK_SIZE = []"
    by (subst chunks_from.simps) simp
  show ?thesis
    unfolding putObject_def Let_def first
    using ins loop small
    by (simp add: t1_def[symmetric] m_def[symmetric] content_type_or_default_def[symmetric]
                  put_object_rows_def)
qed

subsection \<open>Selecting the chunks of an object\<close>

lemma filter_is_object_delete:
  "filter (is_object b k) (delete_object_rows b' k' t)
     = (if b = b' \<and> k = k' then [] else filter (is_object b k) t)"
proof (cases "b = b' \<and> k = k'")
  case True
  then show ?thesis by (simp add: delete_object_rows_def)
next
  case False
  have "filter (\<lambda>r. \<not> is_object b' k' r \<and> is_object b k r) t = filter (is_object b k) t"
  proof (rule filter_cong[OF refl])
    fix r show "(\<not> is_object b' k' r \<and> is_object b k r) = is_object b k r"
      using False by (auto simp: is_object_def)
  qed
  then show ?thesis
    by (simp only: if_not_P[OF False] delete_object_rows_def filter_filter)
qed

lemma filter_is_object_all:
  assumes "\<And>r. r \<in> set rows \<Longrightarrow> is_object b' k' r"
  shows "filter (is_object b k) rows = (if b = b' \<and> k = k' then rows else [])"
proof (cases "b = b' \<and> k = k'")
  case True
  with assms show ?thesis by (simp add: filter_id_conv)
next
  case False
  have "\<And>r. r \<in> set rows \<Longrightarrow> \<not> is_object b k r"
    using assms False by (auto simp: is_object_def)
  then have "filter (is_object b k) rows = []"
    by (simp add: filter_empty_conv)
  then show ?thesis by (simp only: if_not_P[OF False])
qed

lemma select_chunks_delete:
  "select_chunks b k (delete_object_rows b' k' t)
     = (if b = b' \<and> k = k' then [] else select_chunks b k t)"
  by (simp add: select_chunks_def filter_is_object_delete)

text \<open>Replacing an object: the rows of the key are deleted and new rows, in index order,
  are appended.\<close>

lemma select_chunks_replace:
  assumes "\<And>r. r \<in> set rows \<Longrightarrow> is_object b' k' r"
    and "sorted (map o_chunk_index rows)"
  shows "select_chunks b k (delete_object_rows b' k' t @ rows)
           = (if b = b' \<and> k = k' then rows else select_chunks b k t)"
proof -
  have "filter (is_object b k) rows = (if b = b' \<and> k = k' then rows else [])"
    using assms(1) by (rule filter_is_object_all)
  then show ?thesis
    using assms(2)
    by (simp add: select_chunks_def filter_is_object_delete sort_key_id_if_sorted)
qed

lemma filter_index0:
  "map f xs = [0..<Suc n] \<Longrightarrow> filter (\<lambda>x. f x = (0::nat)) xs = [hd xs]"
proof -
  assume a: "map f xs = [0..<Suc n]"
  then obtain x xs' where xs: "xs = x # xs'" by (cases xs) auto
  with a have "f x = 0" and m: "map f xs' = [1..<Suc n]"
    by (simp_all add: upt_conv_Cons del: upt_Suc)
  have "\<And>y. y \<in> set xs' \<Longrightarrow> f y \<noteq> 0"
  proof -
    fix y assume "y \<in> set xs'"
    then have "f y \<in> set (map f xs')" by simp
    with m show "f y \<noteq> 0" by auto
  qed
  then have "filter (\<lambda>x. f x = 0) xs' = []" by (simp add: filter_empty_conv)
  with xs \<open>f x = 0\<close> show ?thesis by simp
qed

lemma sort_key_singleton: "sort_key f xs = [x] \<Longrightarrow> xs = [x]"
proof -
  assume a: "sort_key f xs = [x]"
  then have "length xs = 1" by (metis length_sort length_Cons list.size(3) One_nat_def)
  moreover from a have "set xs = {x}" by (metis set_sort list.simps(15) empty_set)
  ultimately show ?thesis by (cases xs) auto
qed

lemma select_chunk0_of_chunks:
  assumes "map o_chunk_index (select_chunks b k t) = [0..<Suc n]"
  shows "select_chunk0 b k t = [hd (select_chunks b k t)]"
proof -
  have "sort_key o_chunk_index (select_chunk0 b k t)
          = filter (\<lambda>r. o_chunk_index r = 0) (select_chunks b k t)"
    by (simp add: select_chunk0_def select_chunks_def filter_sort conj_commute)
  also have "\<dots> = [hd (select_chunks b k t)]"
    using assms by (rule filter_index0)
  finally show ?thesis by (rule sort_key_singleton)
qed

text \<open>What \<open>getObject\<close> returns for an object whose chunks are indexed \<open>0, 1, ...\<close>
  and hold as many bytes as chunk 0 records.\<close>

lemma getObject_chunks:
  assumes idx: "map o_chunk_index (select_chunks b k (objects s)) = [0..<Suc n]"
    and sz: "o_size (hd (select_chunks b k (objects s)))
               = length (concat (map o_data (select_chunks b k (objects s))))"
  shows "getObject s b k headOnly =
     \<lparr>status = 200,
      hdr_content_type = Some (o_content_type (hd (select_chunks b k (objects s)))),
      hdr_content_length = Some (length (concat (map o_data (select_chunks b k (objects s))))),
      hdr_etag = Some (quoted (o_etag (hd (select_chunks b k (objects s))))),
      hdr_last_modified =
        Some (UTCString (o_last_modified (hd (select_chunks b k (objects s))))),
      body = (if headOnly then NoBody
              else Binary (concat (map o_data (select_chunks b k (objects s)))))\<rparr>"
proof -
  define cs where "cs = select_chunks b k (objects s)"
  have c0: "select_chunk0 b k (objects s) = [hd cs]"
    unfolding cs_def using idx by (rule select_chunk0_of_chunks)
  have ne: "cs \<noteq> []" using idx by (auto simp: cs_def)
  have comb: "combine_chunks (replicate (o_size (hd cs)) 0) 0 (map o_data cs)
                = Some (concat (map o_data cs))"
    using sz by (intro combine_chunks_exact) (simp add: cs_def)
  show ?thesis
    unfolding getObject_def c0 cs_def[symmetric] Let_def
    using ne comb sz by (simp add: cs_def[symmetric])
qed

lemma sort_key_Nil_iff: "sort_key f xs = [] \<longleftrightarrow> xs = []"
  using length_sort[of f xs] by (metis length_0_conv)

lemma getObject_absent:
  assumes "select_chunks b k (objects s) = []"
  shows "getObject s b k headOnly
           = errorResponse NoSuchKey ''The specified key does not exist.'' 404"
proof -
  from assms have "filter (is_object b k) (objects s) = []"
    by (simp add: select_chunks_def sort_key_Nil_iff)
  then have "select_chunk0 b k (objects s) = []"
    by (simp add: select_chunk0_def filter_empty_conv)
  then show ?thesis by (simp add: getObject_def)
qed

lemma put_object_rows_is_object:
  assumes "r \<in> set (put_object_rows md5 now b k data h)"
  shows "is_object b k r"
proof -
  from assms have "r = meta_row b k (length data) (md5 data) now (content_type_or_default h)
                         (take CHUNK_SIZE data)
                   \<or> r \<in> set (put_rows b k 1 (chunks_from data CHUNK_SIZE))"
    by (simp add: put_object_rows_def)
  then show ?thesis
  proof
    assume "r = meta_row b k (length data) (md5 data) now (content_type_or_default h)
                  (take CHUNK_SIZE data)"
    then show ?thesis by (simp add: meta_row_def is_object_def)
  next
    assume "r \<in> set (put_rows b k 1 (chunks_from data CHUNK_SIZE))"
    then show ?thesis by (rule put_rows_is_object)
  qed
qed

lemma put_object_rows_index:
  "map o_chunk_index (put_object_rows md5 now b k data h)
     = [0..<Suc (length (chunks_from data CHUNK_SIZE))]"
proof -
  have "[0..<Suc (length (chunks_from data CHUNK_SIZE))]
          = 0 # [1..<1 + length (chunks_from data CHUNK_SIZE)]"
    by (simp add: upt_conv_Cons del: upt_Suc)
  then show ?thesis
    by (simp only: put_object_rows_def list.map put_rows_index) (simp add: meta_row_def)
qed

lemma put_object_rows_data:
  "concat (map o_data (put_object_rows md5 now b k data h)) = data"
  by (simp add: put_object_rows_def put_rows_data meta_row_def concat_chunks_from)

lemma hd_put_object_rows:
  "o_size (hd (put_object_rows md5 now b k data h)) = length data"
  by (simp add: put_object_rows_def meta_row_def)

lemma select_chunks_putObject:
  "select_chunks b k (objects (snd (putObject md5 now b' k' data h s)))
     = (if b = b' \<and> k = k' then put_object_rows md5 now b' k' data h
        else select_chunks b k (objects s))"
proof -
  have "sorted (map o_chunk_index (put_object_rows md5 now b' k' data h))"
    by (simp only: put_object_rows_index sorted_upt)
  then have "select_chunks b k (delete_object_rows b' k' (objects s)
                                  @ put_object_rows md5 now b' k' data h)
               = (if b = b' \<and> k = k' then put_object_rows md5 now b' k' data h
                  else select_chunks b k (objects s))"
    by (intro select_chunks_replace put_object_rows_is_object)
  then show ?thesis by (simp add: putObject_eq)
qed

subsection \<open>Round trip of PutObject and GetObject\<close>

text \<open>
  Claim C1. For every store, bucket, key \<open>k\<close> and byte string \<open>b\<close> of any length
  (below, at or above \<open>CHUNK_SIZE\<close>): \<open>putObject\<close> answers 200, and in the store it
  leaves, \<open>getObject\<close> on the same bucket and key answers 200 with a body equal to
  \<open>b\<close> byte for byte and \<open>Content-Length = length b\<close>, and the \<open>HEAD\<close> form answers
  200 with the same \<open>Content-Length\<close> and no body.
\<close>

theorem C1_put_get_roundtrip:
  "status (fst (putObject md5 now bucket k b h s)) = 200
   \<and> status (getObject (snd (putObject md5 now bucket k b h s)) bucket k False) = 200
   \<and> body (getObject (snd (putObject md5 now bucket k b h s)) bucket k False) = Binary b
   \<and> hdr_content_length (getObject (snd (putObject md5 now bucket k b h s)) bucket k False)
       = Some (length b)
   \<and> status (getObject (snd (putObject md5 now bucket k b h s)) bucket k True) = 200
   \<and> hdr_content_length (getObject (snd (putObject md5 now bucket k b h s)) bucket k True)
       = Some (length b)
   \<and> body (getObject (snd (putObject md5 now bucket k b h s)) bucket k True) = NoBody"
proof -
  define s' where "s' = snd (putObject md5 now bucket k b h s)"
  have sel: "select_chunks bucket k (objects s') = put_object_rows md5 now bucket k b h"
    by (simp add: s'_def select_chunks_putObject)
  have idx: "map o_chunk_index (select_chunks bucket k (objects s'))
               = [0..<Suc (length (chunks_from b CHUNK_SIZE))]"
    by (simp only: sel put_object_rows_index)
  have sz: "o_size (hd (select_chunks bucket k (objects s')))
              = length (concat (map o_data (select_chunks bucket k (objects s'))))"
    by (simp only: sel put_object_rows_data hd_put_object_rows)
  note g = getObject_chunks[OF idx sz, unfolded sel put_object_rows_data]
  have p: "status (fst (putObject md5 now bucket k b h s)) = 200"
    by (simp add: putObject_eq etagResponse_def)
  have g1: "status (getObject s' bucket k False) = 200"
    and g2: "body (getObject s' bucket k False) = Binary b"
    and g3: "hdr_content_length (getObject s' bucket k False) = Some (length b)"
    and g4: "status (getObject s' bucket k True) = 200"
    and g5: "hdr_content_length (getObject s' bucket k True) = Some (length b)"
    and g6: "body (getObject s' bucket k True) = NoBody"
    by (simp_all add: g)
  show ?thesis
    using p g1 g2 g3 g4 g5 g6 unfolding s'_def by (intro conjI)
qed

subsection \<open>UploadPart\<close>

lemma insert_part_fresh:
  "part_pk r \<notin> part_pk ` set t \<Longrightarrow> insert_part r t = Some (t @ [r])"
  by (simp add: insert_part_def)

lemma part_rows_Nil [simp]: "part_rows u n i [] = []"
  by (simp add: part_rows_def)

lemma part_rows_Cons [simp]:
  "part_rows u n i (d # ds) = part_chunk_row u n i 0 [] d # part_rows u n (Suc i) ds"
  by (simp add: part_rows_def)

lemma insert_part_chunk_Num [simp]:
  "insert_part_chunk u (Num n) i sz etag d t = insert_part (part_chunk_row u n i sz etag d) t"
  by (simp add: insert_part_chunk_def)

lemma delete_part_Num [simp]: "delete_part u (Num n) t = delete_part_rows u n t"
  by (simp add: delete_part_def delete_part_rows_def)

lemma upload_chunks_eq_aux:
  "pn = Num n \<Longrightarrow>
   (\<And>r. r \<in> set t \<Longrightarrow> is_part u n r \<Longrightarrow> p_chunk_index r < chunkIndex) \<Longrightarrow>
   upload_chunks u pn xs offset chunkIndex t
     = Inr (t @ part_rows u n chunkIndex (chunks_from xs offset))"
proof (induction u pn xs offset chunkIndex t rule: upload_chunks.induct)
  case (1 u pn xs offset chunkIndex t)
  note pn = \<open>pn = Num n\<close>
  show ?case
  proof (cases "offset < length xs")
    case False
    then show ?thesis
      by (subst upload_chunks.simps, subst chunks_from.simps) simp
  next
    case True
    define chunk where "chunk = slice offset (min (offset + CHUNK_SIZE) (length xs)) xs"
    define row where "row = part_chunk_row u n chunkIndex 0 [] chunk"
    have fresh: "part_pk row \<notin> part_pk ` set t"
    proof
      assume "part_pk row \<in> part_pk ` set t"
      then obtain r where r: "r \<in> set t" "part_pk r = part_pk row" by auto
      then have "is_part u n r" "p_chunk_index r = chunkIndex"
        by (auto simp: part_pk_def row_def part_chunk_row_def is_part_def)
      with "1.prems"(2)[OF r(1)] show False by simp
    qed
    then have ins: "insert_part row t = Some (t @ [row])"
      by (rule insert_part_fresh)
    have "upload_chunks u pn xs (offset + CHUNK_SIZE) (chunkIndex + 1) (t @ [row])
            = Inr ((t @ [row]) @ part_rows u n (chunkIndex + 1) (chunks_from xs (offset + CHUNK_SIZE)))"
    proof (rule "1.IH"[OF True refl, of chunk "t @ [row]"])
      show "chunk = slice offset (min (offset + CHUNK_SIZE) (length xs)) xs"
        by (simp add: chunk_def)
      show "insert_part_chunk u pn chunkIndex 0 [] chunk t = Some (t @ [row])"
        using ins by (simp add: row_def pn)
      show "pn = Num n" by (rule pn)
      fix r assume "r \<in> set (t @ [row])" "is_part u n r"
      then show "p_chunk_index r < chunkIndex + 1"
        using "1.prems"(2)[of r] by (auto simp: row_def part_chunk_row_def less_Suc_eq)
    qed
    moreover have "chunks_from xs offset = chunk # chunks_from xs (offset + CHUNK_SIZE)"
      using True by (subst chunks_from.simps) (simp add: chunk_def)
    ultimately show ?thesis
      using True ins
      by (subst upload_chunks.simps)
         (simp add: pn chunk_def[symmetric] row_def[symmetric] Let_def)
  qed
qed

lemma upload_chunks_eq:
  "(\<And>r. r \<in> set t \<Longrightarrow> is_part u n r \<Longrightarrow> p_chunk_index r < chunkIndex) \<Longrightarrow>
   upload_chunks u (Num n) xs offset chunkIndex t
     = Inr (t @ part_rows u n chunkIndex (chunks_from xs offset))"
  by (rule upload_chunks_eq_aux[OF refl])

lemma part_rows_is_part: "r \<in> set (part_rows u n i ds) \<Longrightarrow> is_part u n r"
  by (induction ds arbitrary: i) (auto simp: part_chunk_row_def is_part_def)

lemma part_rows_index: "map p_chunk_index (part_rows u n i ds) = [i..<i + length ds]"
  by (induction ds arbitrary: i) (auto simp: part_chunk_row_def upt_rec)

lemma part_rows_data: "map p_data (part_rows u n i ds) = ds"
  by (induction ds arbitrary: i) (auto simp: part_chunk_row_def)

lemma delete_part_rows_none:
  "r \<in> set (delete_part_rows u n t) \<Longrightarrow> \<not> is_part u n r"
  by (simp add: delete_part_rows_def)

lemma uploadPart_NaN:
  "uploadPart md5 bucket key u NaN data s
     = (errorResponse InternalError ''Failed to upload part'' 500, s)"
  by (simp add: uploadPart_def delete_part_def insert_part_chunk_def Let_def)

lemma uploadPart_eq:
  "uploadPart md5 bucket key u (Num n) data s
     = (etagResponse (md5 data),
        s\<lparr>multipart_parts := delete_part_rows u n (multipart_parts s)
                               @ upload_part_rows md5 u n data\<rparr>)"
proof -
  define t1 where "t1 = delete_part_rows u n (multipart_parts s)"
  define m where "m = part_chunk_row u n 0 (length data) (md5 data) (take CHUNK_SIZE data)"
  have first: "(if length data = 0 then [] else slice 0 (min CHUNK_SIZE (length data)) data)
                 = take CHUNK_SIZE data"
    by (auto simp: slice_def min_def)
  have "part_pk m \<notin> part_pk ` set t1"
    using delete_part_rows_none[of _ u n "multipart_parts s"]
    by (auto simp: t1_def m_def part_pk_def part_chunk_row_def is_part_def)
  then have ins: "insert_part m t1 = Some (t1 @ [m])"
    by (rule insert_part_fresh)
  have loop: "upload_chunks u (Num n) data CHUNK_SIZE 1 (t1 @ [m])
                = Inr ((t1 @ [m]) @ part_rows u n 1 (chunks_from data CHUNK_SIZE))"
  proof (rule upload_chunks_eq)
    fix r assume "r \<in> set (t1 @ [m])" "is_part u n r"
    then show "p_chunk_index r < 1"
      using delete_part_rows_none[of r u n "multipart_parts s"]
      by (auto simp: t1_def m_def part_chunk_row_def)
  qed
  have small: "\<not> CHUNK_SIZE < length data \<Longrightarrow> chunks_from data CHUNK_SIZE = []"
    by (subst chunks_from.simps) simp
  show ?thesis
    unfolding uploadPart_def Let_def first delete_part_Num insert_part_chunk_Num
    using ins loop small
    by (simp add: t1_def[symmetric] m_def[symmetric] upload_part_rows_def)
qed

lemma filter_is_part_delete:
  "filter (is_part u n) (delete_part_rows u' n' t)
     = (if u = u' \<and> n = n' then [] else filter (is_part u n) t)"
proof (cases "u = u' \<and> n = n'")
  case True
  then show ?thesis by (simp add: delete_part_rows_def)
next
  case False
  have "filter (\<lambda>r. \<not> is_part u' n' r \<and> is_part u n r) t = filter (is_part u n) t"
  proof (rule filter_cong[OF refl])
    fix r show "(\<not> is_part u' n' r \<and> is_part u n r) = is_part u n r"
      using False by (auto simp: is_part_def)
  qed
  then show ?thesis
    by (simp only: if_not_P[OF False] delete_part_rows_def filter_filter)
qed

lemma filter_is_part_all:
  assumes "\<And>r. r \<in> set rows \<Longrightarrow> is_part u' n' r"
  shows "filter (is_part u n) rows = (if u = u' \<and> n = n' then rows else [])"
proof (cases "u = u' \<and> n = n'")
  case True
  with assms show ?thesis by (simp add: filter_id_conv)
next
  case False
  have "\<And>r. r \<in> set rows \<Longrightarrow> \<not> is_part u n r"
    using assms False by (auto simp: is_part_def)
  then have "filter (is_part u n) rows = []"
    by (simp add: filter_empty_conv)
  then show ?thesis by (simp only: if_not_P[OF False])
qed

lemma select_part_chunks_replace:
  assumes "\<And>r. r \<in> set rows \<Longrightarrow> is_part u' n' r"
    and "sorted (map p_chunk_index rows)"
  shows "select_part_chunks u n (delete_part_rows u' n' t @ rows)
           = (if u = u' \<and> n = n' then rows else select_part_chunks u n t)"
proof -
  have "filter (is_part u n) rows = (if u = u' \<and> n = n' then rows else [])"
    using assms(1) by (rule filter_is_part_all)
  then show ?thesis
    using assms(2)
    by (simp add: select_part_chunks_def filter_is_part_delete sort_key_id_if_sorted)
qed

lemma upload_part_rows_is_part:
  assumes "r \<in> set (upload_part_rows md5 u n data)"
  shows "is_part u n r"
proof -
  from assms have "r = part_chunk_row u n 0 (length data) (md5 data) (take CHUNK_SIZE data)
                   \<or> r \<in> set (part_rows u n 1 (chunks_from data CHUNK_SIZE))"
    by (simp add: upload_part_rows_def)
  then show ?thesis
  proof
    assume "r = part_chunk_row u n 0 (length data) (md5 data) (take CHUNK_SIZE data)"
    then show ?thesis by (simp add: part_chunk_row_def is_part_def)
  next
    assume "r \<in> set (part_rows u n 1 (chunks_from data CHUNK_SIZE))"
    then show ?thesis by (rule part_rows_is_part)
  qed
qed

lemma upload_part_rows_index:
  "map p_chunk_index (upload_part_rows md5 u n data)
     = [0..<Suc (length (chunks_from data CHUNK_SIZE))]"
proof -
  have "[0..<Suc (length (chunks_from data CHUNK_SIZE))]
          = 0 # [1..<1 + length (chunks_from data CHUNK_SIZE)]"
    by (simp add: upt_conv_Cons del: upt_Suc)
  then show ?thesis
    by (simp only: upload_part_rows_def list.map part_rows_index) (simp add: part_chunk_row_def)
qed

lemma upload_part_rows_data:
  "concat (map p_data (upload_part_rows md5 u n data)) = data"
  by (simp add: upload_part_rows_def part_rows_data part_chunk_row_def concat_chunks_from)

lemma select_part_chunks_uploadPart:
  "select_part_chunks u n (multipart_parts (snd (uploadPart md5 bucket key u' (Num n') data s)))
     = (if u = u' \<and> n = n' then upload_part_rows md5 u' n' data
        else select_part_chunks u n (multipart_parts s))"
proof -
  have "sorted (map p_chunk_index (upload_part_rows md5 u' n' data))"
    by (simp only: upload_part_rows_index sorted_upt)
  then have "select_part_chunks u n (delete_part_rows u' n' (multipart_parts s)
                                       @ upload_part_rows md5 u' n' data)
               = (if u = u' \<and> n = n' then upload_part_rows md5 u' n' data
                  else select_part_chunks u n (multipart_parts s))"
    by (intro select_part_chunks_replace upload_part_rows_is_part)
  then show ?thesis by (simp add: uploadPart_eq)
qed

subsection \<open>UploadPart without a session\<close>

lemma map_const_replicate:
  "(\<And>r. r \<in> set xs \<Longrightarrow> f r = c) \<Longrightarrow> map f xs = replicate (length xs) c"
  by (induction xs) simp_all

text \<open>
  Claim C10. For every store (with or without a \<open>multipart_uploads\<close> row for the
  \<open>uploadId\<close>), every \<open>uploadId\<close>, every part number \<open>n\<close> and every body: \<open>uploadPart\<close>
  answers 200 with the quoted MD5 of the body as \<open>ETag\<close>; it leaves the session table and
  the objects untouched; the part's chunk rows, all keyed by that \<open>uploadId\<close> and part
  number, are in the parts table afterwards and hold the body. A \<open>partNumber\<close> parameter
  that is no number (\<open>parseInt\<close> returned \<open>NaN\<close>) is answered \<open>InternalError\<close> with status
  500 and the store is left as it was. Whatever \<open>parseInt\<close> returned, the session table is
  never read: the response and the parts table afterwards are the same for every content
  \<open>sessions\<close> of it, and no branch answers \<open>NoSuchUpload\<close> or status 404.
\<close>

theorem C10_uploadPart_no_session_check:
  "status (fst (uploadPart md5 bucket key uploadId (Num n) data s)) = 200
   \<and> hdr_etag (fst (uploadPart md5 bucket key uploadId (Num n) data s))
       = Some (quoted (md5 data))
   \<and> body (fst (uploadPart md5 bucket key uploadId (Num n) data s)) = NoBody
   \<and> multipart_uploads (snd (uploadPart md5 bucket key uploadId (Num n) data s))
       = multipart_uploads s
   \<and> objects (snd (uploadPart md5 bucket key uploadId (Num n) data s)) = objects s
   \<and> select_part_chunks uploadId n
         (multipart_parts (snd (uploadPart md5 bucket key uploadId (Num n) data s)))
       = upload_part_rows md5 uploadId n data
   \<and> upload_part_rows md5 uploadId n data \<noteq> []
   \<and> map p_upload_id (upload_part_rows md5 uploadId n data)
       = replicate (length (upload_part_rows md5 uploadId n data)) uploadId
   \<and> map p_part_number (upload_part_rows md5 uploadId n data)
       = replicate (length (upload_part_rows md5 uploadId n data)) n
   \<and> concat (map p_data (upload_part_rows md5 uploadId n data)) = data
   \<and> uploadPart md5 bucket key uploadId NaN data s
       = (errorResponse InternalError ''Failed to upload part'' 500, s)
   \<and> fst (uploadPart md5 bucket key uploadId partNumber data (s\<lparr>multipart_uploads := sessions\<rparr>))
       = fst (uploadPart md5 bucket key uploadId partNumber data s)
   \<and> multipart_parts
         (snd (uploadPart md5 bucket key uploadId partNumber data
                 (s\<lparr>multipart_uploads := sessions\<rparr>)))
       = multipart_parts (snd (uploadPart md5 bucket key uploadId partNumber data s))
   \<and> status (fst (uploadPart md5 bucket key uploadId partNumber data s)) \<noteq> 404
   \<and> body (fst (uploadPart md5 bucket key uploadId partNumber data s))
       \<noteq> ErrorXml NoSuchUpload message"
proof -
  have keyed: "map p_upload_id (upload_part_rows md5 uploadId n data)
                 = replicate (length (upload_part_rows md5 uploadId n data)) uploadId"
  proof (rule map_const_replicate)
    fix r assume "r \<in> set (upload_part_rows md5 uploadId n data)"
    then have "is_part uploadId n r" by (rule upload_part_rows_is_part)
    then show "p_upload_id r = uploadId" by (simp add: is_part_def)
  qed
  have numbered: "map p_part_number (upload_part_rows md5 uploadId n data)
                    = replicate (length (upload_part_rows md5 uploadId n data)) n"
  proof (rule map_const_replicate)
    fix r assume "r \<in> set (upload_part_rows md5 uploadId n data)"
    then have "is_part uploadId n r" by (rule upload_part_rows_is_part)
    then show "p_part_number r = n" by (simp add: is_part_def)
  qed
  have sel: "select_part_chunks uploadId n
               (multipart_parts (snd (uploadPart md5 bucket key uploadId (Num n) data s)))
             = upload_part_rows md5 uploadId n data"
    by (simp add: select_part_chunks_uploadPart)
  have ne: "upload_part_rows md5 uploadId n data \<noteq> []"
    by (simp add: upload_part_rows_def)
  have numeric:
    "status (fst (uploadPart md5 bucket key uploadId (Num n) data s)) = 200
     \<and> hdr_etag (fst (uploadPart md5 bucket key uploadId (Num n) data s))
         = Some (quoted (md5 data))
     \<and> body (fst (uploadPart md5 bucket key uploadId (Num n) data s)) = NoBody
     \<and> multipart_uploads (snd (uploadPart md5 bucket key uploadId (Num n) data s))
         = multipart_uploads s
     \<and> objects (snd (uploadPart md5 bucket key uploadId (Num n) data s)) = objects s"
    by (simp add: uploadPart_eq etagResponse_def)
  have blind:
    "fst (uploadPart md5 bucket key uploadId partNumber data (s\<lparr>multipart_uploads := sessions\<rparr>))
       = fst (uploadPart md5 bucket key uploadId partNumber data s)
     \<and> multipart_parts
           (snd (uploadPart md5 bucket key uploadId partNumber data
                   (s\<lparr>multipart_uploads := sessions\<rparr>)))
         = multipart_parts (snd (uploadPart md5 bucket key uploadId partNumber data s))
     \<and> status (fst (uploadPart md5 bucket key uploadId partNumber data s)) \<noteq> 404
     \<and> body (fst (uploadPart md5 bucket key uploadId partNumber data s))
         \<noteq> ErrorXml NoSuchUpload message"
  proof (cases partNumber)
    case NaN
    then show ?thesis by (simp add: uploadPart_NaN errorResponse_def)
  next
    case (Num m)
    then show ?thesis by (simp add: uploadPart_eq etagResponse_def)
  qed
  show ?thesis
    using keyed numbered sel ne numeric blind
          upload_part_rows_data[of md5 uploadId n data] uploadPart_NaN[of md5 bucket key uploadId data s]
    by (intro conjI) blast+
qed

theorem C10_orphan_part_witness:
  "multipart_uploads empty_store = []
   \<and> status (fst (uploadPart (\<lambda>_. js ''5289df73'') (js ''b'') (js ''k'') (js ''no-such-upload'')
                    (Num 1) [1, 2, 3] empty_store)) = 200
   \<and> multipart_uploads (snd (uploadPart (\<lambda>_. js ''5289df73'') (js ''b'') (js ''k'')
                                 (js ''no-such-upload'') (Num 1) [1, 2, 3] empty_store)) = []
   \<and> concat (map p_data (select_part_chunks (js ''no-such-upload'') 1
        (multipart_parts (snd (uploadPart (\<lambda>_. js ''5289df73'') (js ''b'') (js ''k'')
                                 (js ''no-such-upload'') (Num 1) [1, 2, 3] empty_store)))))
       = [1, 2, 3]
   \<and> uploadPart (\<lambda>_. js ''5289df73'') (js ''b'') (js ''k'') (js ''no-such-upload'') NaN
        [1, 2, 3] empty_store
       = (errorResponse InternalError ''Failed to upload part'' 500, empty_store)"
  using C10_uploadPart_no_session_check
          [where ?md5.0 = "\<lambda>_. js ''5289df73''" and bucket = "js ''b''" and key = "js ''k''"
             and uploadId = "js ''no-such-upload''" and n = 1 and data = "[1, 2, 3]"
             and s = empty_store and partNumber = NaN and sessions = "[]" and message = "[]"]
  by (simp add: empty_store_def)

subsection \<open>WebSocket upgrade\<close>

text \<open>
  Claim C9. Every request whose \<open>Upgrade\<close> header is \<open>websocket\<close> is answered 101 and
  its socket is in the subscriber set afterwards, whatever its path, its \<open>Authorization\<close>
  header (present or absent, valid or not) and the token in it: the upgrade is decided
  before the bucket is read and before any authentication step. The store is untouched
  and no event is sent.
\<close>

theorem C9_websocket_upgrade_before_auth:
  assumes "req_upgrade req = Some (js ''websocket'')"
  shows "fst (fetch P d req e) = Responded (emptyResponse 101)
         \<and> status (emptyResponse 101) = 101
         \<and> dr_socket d \<in> set (webSocketClients (fst (snd (fetch P d req e))))
         \<and> set (webSocketClients (fst (snd (fetch P d req e))))
             = insert (dr_socket d) (set (webSocketClients e))
         \<and> sql (fst (snd (fetch P d req e))) = sql e
         \<and> snd (snd (fetch P d req e)) = []"
  using assms by (auto simp: fetch_def handleWebSocketUpgrade_def emptyResponse_def)

theorem C9_websocket_upgrade_witness:
  "req_upgrade ((bare_request ''GET'' ''/'')\<lparr>req_upgrade := Some (js ''websocket'')\<rparr>)
     = Some (js ''websocket'')
   \<and> req_authorization ((bare_request ''GET'' ''/'')\<lparr>req_upgrade := Some (js ''websocket'')\<rparr>)
       = None
   \<and> fst (fetch null_platform draw0
             ((bare_request ''GET'' ''/'')\<lparr>req_upgrade := Some (js ''websocket'')\<rparr>) engine0)
       = Responded (emptyResponse 101)
   \<and> webSocketClients (fst (snd (fetch null_platform draw0
             ((bare_request ''GET'' ''/'')\<lparr>req_upgrade := Some (js ''websocket'')\<rparr>) engine0)))
       = [7]"
proof -
  have h: "req_upgrade ((bare_request ''GET'' ''/'')\<lparr>req_upgrade := Some (js ''websocket'')\<rparr>)
             = Some (js ''websocket'')"
    by simp
  have "set (webSocketClients (fst (snd (fetch null_platform draw0
             ((bare_request ''GET'' ''/'')\<lparr>req_upgrade := Some (js ''websocket'')\<rparr>) engine0))))
          = {7}"
    using C9_websocket_upgrade_before_auth[OF h, of null_platform draw0 engine0]
    by (simp add: draw0_def engine0_def)
  moreover have "webSocketClients (fst (snd (fetch null_platform draw0
             ((bare_request ''GET'' ''/'')\<lparr>req_upgrade := Some (js ''websocket'')\<rparr>) engine0)))
          = [7]"
    by (simp add: fetch_def handleWebSocketUpgrade_def draw0_def engine0_def)
  ultimately show ?thesis
    using C9_websocket_upgrade_before_auth[OF h, of null_platform draw0 engine0]
    by (simp add: bare_request_def)
qed

subsection \<open>CopyObject onto its own source\<close>

lemma copy_chunks_Nil_only:
  "copy_chunks bucket destKey sourceMeta lastModified [] t = Inr t"
  by simp

lemma indexOf_append_fresh:
  "c \<notin> set xs \<Longrightarrow> indexOf c (xs @ c # ys) = Some (length xs)"
  by (induction xs) auto

lemma copyObject_self:
  assumes src: "select_chunk0 bucket key (objects s) = m # ms"
    and nosl: "slash \<notin> set bucket"
    and ne: "bucket \<noteq> []"
    and dec: "decode enc = Some key"
  shows "copyObject decode now bucket key (bucket @ slash # enc) s
           = (xmlResponse (CopyObjectResult now (quoted (o_etag m))),
              s\<lparr>objects := delete_object_rows bucket key (objects s)\<rparr>)"
proof -
  have lead: "take 1 (bucket @ slash # enc) \<noteq> [slash]"
    using nosl ne by (cases bucket) auto
  have idx: "indexOf slash (bucket @ slash # enc) = Some (length bucket)"
    using nosl by (rule indexOf_append_fresh)
  have sel: "select_chunks bucket key (delete_object_rows bucket key (objects s)) = []"
    by (simp add: select_chunks_delete)
  show ?thesis
    unfolding copyObject_def Let_def if_not_P[OF lead] idx option.case
    by (simp add: dec src sel)
qed

text \<open>
  Claim C4, where the code departs from it. When the source and the destination are the
  same key, and an object is stored there, \<open>copyObject\<close> deletes the destination rows
  before it reads the source chunks: it answers 200 and the object is gone, so
  \<open>getObject\<close> answers \<open>NoSuchKey\<close> (404) afterwards. The copy source is the form
  \<open>bucket/key\<close> that passes the same-bucket test.
\<close>

theorem C4_copy_onto_itself_deletes:
  assumes ex: "status (getObject s bucket key False) = 200"
    and nosl: "slash \<notin> set bucket"
    and ne: "bucket \<noteq> []"
    and dec: "decode enc = Some key"
  shows "status (fst (copyObject decode now bucket key (bucket @ slash # enc) s)) = 200
         \<and> getObject (snd (copyObject decode now bucket key (bucket @ slash # enc) s))
               bucket key False
             = errorResponse NoSuchKey ''The specified key does not exist.'' 404"
proof -
  have "select_chunk0 bucket key (objects s) \<noteq> []"
  proof
    assume "select_chunk0 bucket key (objects s) = []"
    then have "status (getObject s bucket key False) = 404"
      by (simp add: getObject_def errorResponse_def)
    with ex show False by simp
  qed
  then obtain m ms where src: "select_chunk0 bucket key (objects s) = m # ms"
    by (cases "select_chunk0 bucket key (objects s)") auto
  note c = copyObject_self[where decode = decode and enc = enc and now = now, OF src nosl ne dec]
  have "select_chunks bucket key
          (objects (snd (copyObject decode now bucket key (bucket @ slash # enc) s))) = []"
    by (simp add: c select_chunks_delete)
  then have "getObject (snd (copyObject decode now bucket key (bucket @ slash # enc) s))
               bucket key False
             = errorResponse NoSuchKey ''The specified key does not exist.'' 404"
    by (rule getObject_absent)
  moreover have "status (fst (copyObject decode now bucket key (bucket @ slash # enc) s)) = 200"
    by (simp add: c xmlResponse_def)
  ultimately show ?thesis by simp
qed

theorem C4_copy_onto_itself_witness:
  "status (getObject (snd (putObject md5c now0 (js ''b'') (js ''k'') [1, 2, 3] None empty_store))
             (js ''b'') (js ''k'') False) = 200
   \<and> status (fst (copyObject Some now0 (js ''b'') (js ''k'') (js ''b/k'')
                    (snd (putObject md5c now0 (js ''b'') (js ''k'') [1, 2, 3] None empty_store))))
       = 200
   \<and> status (getObject
               (snd (copyObject Some now0 (js ''b'') (js ''k'') (js ''b/k'')
                      (snd (putObject md5c now0 (js ''b'') (js ''k'') [1, 2, 3] None empty_store))))
               (js ''b'') (js ''k'') False) = 404"
proof -
  have ex: "status (getObject (snd (putObject md5c now0 (js ''b'') (js ''k'') [1, 2, 3] None
                                      empty_store)) (js ''b'') (js ''k'') False) = 200"
    using C1_put_get_roundtrip by blast
  have nosl: "slash \<notin> set (js ''b'')" by (simp add: js_def slash_def)
  have ne: "js ''b'' \<noteq> []" by (simp add: js_def)
  have dec: "Some (js ''k'') = Some (js ''k'')" by simp
  have src: "js ''b/k'' = js ''b'' @ slash # js ''k''" by (simp add: js_def slash_def)
  show ?thesis
    using ex C4_copy_onto_itself_deletes
               [where decode = Some and enc = "js ''k''" and now = now0, OF ex nosl ne dec]
    by (simp add: src errorResponse_def)
qed

subsection \<open>Listing with delimiter \<open>/\<close>\<close>

lemma store_deep_objects:
  "objects store_deep
     = [meta_row (js ''b'') (js ''a/b/c.txt'') 1 (js ''00000000000000000000000000000000'')
          now0 (js ''application/octet-stream'') [1]]"
proof -
  have "chunks_from [1] CHUNK_SIZE = []"
    by (subst chunks_from.simps) (simp add: CHUNK_SIZE_def)
  then show ?thesis
    by (simp add: store_deep_def putObject_eq put_object_rows_def empty_store_def
          delete_object_rows_def md5c_def content_type_or_default_def CHUNK_SIZE_def)
qed

lemma depth_deep: "computeDepth (js ''a/b/c.txt'') = 2"
  by (simp add: computeDepth_def js_def slash_def)

lemma parent_deep: "computeParent (js ''a/b/c.txt'') = js ''a/b/''"
  by (simp add: computeParent_def endsWith_slash_def js_def slash_def)

text \<open>
  Claim C5, where the code departs from it. The bucket holds the single key
  \<open>a/b/c.txt\<close>, which contains \<open>/\<close> and whose first segment is \<open>a\<close>. The listing
  with delimiter \<open>/\<close> and no prefix answers with no \<open>CommonPrefixes\<close> at all (and no
  \<open>Contents\<close>): the directory \<open>a/\<close>, whose only object lies in a deeper directory, is
  missing.
\<close>

theorem C5_deep_directory_missing:
  "listObjectsV2 (\<lambda>_. Num 1000) lc (js ''b'') [(js ''delimiter'', js ''/'')] store_deep
     = xmlResponse (ListBucketResult
         \<lparr>lb_name = js ''b'', lb_prefix = [], lb_delimiter = Some (js ''/''), lb_key_count = 0,
          lb_max_keys = Num 1000, lb_is_truncated = False, lb_next_continuation_token = None,
          lb_contents = [], lb_common_prefixes = []\<rparr>)"
proof -
  have sel: "select_distinct_parents (js ''b'') [] (0 + 1) [] (Num 1000) (objects store_deep)
               = Some [Some (js ''a/b/'')]"
    by (simp add: select_distinct_parents_def bucket_rows_def parent_selected_def
          store_deep_objects meta_row_def depth_deep parent_deep)
  have col: "collect_prefixes [] (0 + 1) [Some (js ''a/b/'')] [] = []"
    by (simp add: computeDepth_def js_def slash_def startsWith_def)
  have pne: "js ''a/b/'' \<noteq> []" by (simp add: js_def)
  have d0: "computeDepth [] = 0" by (simp add: computeDepth_def)
  have con: "select_direct_contents (js ''b'') [] [] (Num 1000) (objects store_deep) = Some []"
    by (simp add: select_direct_contents_def bucket_rows_def store_deep_objects meta_row_def
          parent_deep pne)
  have ls: "list_slash lc (js ''b'') [] [] (Num 1000) (objects store_deep)
              = Some ([], [], False, [])"
    unfolding list_slash_def Let_def d0 sel option.case col con by (simp add: sort_by_def)
  have d: "js ''/'' = [slash]" by (simp add: js_def slash_def)
  have p: "param [(js ''delimiter'', js ''/'')] ''delimiter'' = [slash]"
    "param [(js ''delimiter'', js ''/'')] ''prefix'' = []"
    "param [(js ''delimiter'', js ''/'')] ''max-keys'' = []"
    "param [(js ''delimiter'', js ''/'')] ''start-after'' = []"
    "param [(js ''delimiter'', js ''/'')] ''continuation-token'' = []"
    by (simp_all add: param_def js_def slash_def)
  show ?thesis
    unfolding listObjectsV2_def Let_def p by (simp add: ls d)
qed

subsection \<open>The prefix range\<close>

lemma word_less_succ: "(a < c + 1) = (c \<noteq> - 1 \<and> a \<le> c)" for a c :: "'a::len word"
proof -
  have "(a < c + 1) = (\<not> c + 1 \<le> a)" by (simp add: not_le)
  also have "\<dots> = (\<not> (c = - 1 \<or> c < a))" by (simp only: inc_less_eq_iff)
  also have "\<dots> = (c \<noteq> - 1 \<and> a \<le> c)" by (auto simp: not_less)
  finally show ?thesis .
qed

lemma ffff_is_minus_one: "(65535 :: jschar) = - 1"
  by simp

text \<open>In the order of code units, the half-open range is the set of strings that start
  with the prefix, as long as the last code unit of the prefix is not \<open>0xFFFF\<close>. (This is
  a statement about the store's own order on text without surrogate code units only.)\<close>

lemma prefix_range_iff:
  assumes "prefix \<noteq> []" and "last prefix \<noteq> - 1"
  shows "(prefix \<le> k \<and> k < prefixUpperBound prefix) = startsWith k prefix"
  using assms
proof (induction prefix arbitrary: k)
  case Nil
  then show ?case by simp
next
  case (Cons c p)
  show ?case
  proof (cases p)
    case Nil
    with Cons.prems have c: "c \<noteq> - 1" by simp
    show ?thesis
    proof (cases k)
      case Nil
      with \<open>p = []\<close> show ?thesis by (simp add: prefixUpperBound_def startsWith_def)
    next
      case (Cons a k')
      with \<open>p = []\<close> c show ?thesis
        by (auto simp: prefixUpperBound_def startsWith_def word_less_succ)
    qed
  next
    case (Cons c' p')
    with Cons.prems have ne: "p \<noteq> []" and l: "last p \<noteq> - 1" by simp_all
    have ub: "prefixUpperBound (c # p) = c # prefixUpperBound p"
      using ne by (simp add: prefixUpperBound_def)
    show ?thesis
    proof (cases k)
      case Nil
      then show ?thesis by (simp add: startsWith_def)
    next
      case (Cons a k')
      have "(p \<le> k' \<and> k' < prefixUpperBound p) = startsWith k' p"
        using ne l by (rule Cons.IH)
      then show ?thesis
        unfolding ub Cons by (auto simp: startsWith_def)
    qed
  qed
qed

lemma in_prefix_range_iff:
  assumes "prefix = [] \<or> last prefix \<noteq> - 1"
  shows "in_prefix_range prefix k = startsWith k prefix"
proof (cases "prefix = []")
  case True
  then show ?thesis by (simp add: in_prefix_range_def startsWith_def)
next
  case False
  with assms have "last prefix \<noteq> - 1" by simp
  with False show ?thesis by (simp add: in_prefix_range_def prefix_range_iff)
qed

lemma store_ffff_objects:
  "objects store_ffff
     = [meta_row (js ''b'') [95, 65535, 97] 1 (js ''00000000000000000000000000000000'')
          now0 (js ''application/octet-stream'') [1]]"
proof -
  have "chunks_from [1] CHUNK_SIZE = []"
    by (subst chunks_from.simps) (simp add: CHUNK_SIZE_def)
  then show ?thesis
    by (simp add: store_ffff_def putObject_eq put_object_rows_def empty_store_def
          delete_object_rows_def md5c_def content_type_or_default_def CHUNK_SIZE_def)
qed

text \<open>
  Claim C6, where the code departs from it. The prefix \<open>_\<close> followed by the code unit
  \<open>0xFFFF\<close> contains \<open>_\<close>; the bucket holds a key that starts with it. The upper bound
  the code computes wraps to \<open>_\<close> followed by the code unit 0, below the prefix, so the
  range is empty and the listing returns no key at all.
\<close>

theorem C6_prefix_ending_ffff_lists_nothing:
  "95 \<in> set [95, 65535 :: jschar]
   \<and> startsWith [95, 65535, 97 :: jschar] [95, 65535]
   \<and> map o_key (bucket_rows (js ''b'') (objects store_ffff)) = [[95, 65535, 97]]
   \<and> prefixUpperBound [95, 65535] = [95, 0]
   \<and> listObjectsV2 (\<lambda>_. Num 1000) lc (js ''b'') [(js ''prefix'', [95, 65535])] store_ffff
       = xmlResponse (ListBucketResult
           \<lparr>lb_name = js ''b'', lb_prefix = [95, 65535], lb_delimiter = None, lb_key_count = 0,
            lb_max_keys = Num 1000, lb_is_truncated = False, lb_next_continuation_token = None,
            lb_contents = [], lb_common_prefixes = []\<rparr>)"
proof -
  have ub: "prefixUpperBound [95, 65535] = [95, 0]"
    by (simp add: prefixUpperBound_def)
  have rows: "bucket_rows (js ''b'') (objects store_ffff) = objects store_ffff"
    by (simp add: bucket_rows_def store_ffff_objects meta_row_def)
  have sel: "select_keys (js ''b'') [95, 65535] [] (num_add (Num 1000) 1) (objects store_ffff)
               = Some []"
    unfolding select_keys_def rows
    by (simp add: store_ffff_objects meta_row_def in_prefix_range_def ub)
  have lp: "list_plain (js ''b'') [95, 65535] [] (Num 1000) (objects store_ffff)
              = Some ([], [], False, [])"
    unfolding list_plain_def Let_def sel by simp
  have p: "param [(js ''prefix'', [95, 65535])] ''delimiter'' = []"
    "param [(js ''prefix'', [95, 65535])] ''prefix'' = [95, 65535]"
    "param [(js ''prefix'', [95, 65535])] ''max-keys'' = []"
    "param [(js ''prefix'', [95, 65535])] ''start-after'' = []"
    "param [(js ''prefix'', [95, 65535])] ''continuation-token'' = []"
    by (simp_all add: param_def js_def)
  have l: "listObjectsV2 (\<lambda>_. Num 1000) lc (js ''b'') [(js ''prefix'', [95, 65535])] store_ffff
       = xmlResponse (ListBucketResult
           \<lparr>lb_name = js ''b'', lb_prefix = [95, 65535], lb_delimiter = None, lb_key_count = 0,
            lb_max_keys = Num 1000, lb_is_truncated = False, lb_next_continuation_token = None,
            lb_contents = [], lb_common_prefixes = []\<rparr>)"
    unfolding listObjectsV2_def Let_def p by (simp add: lp)
  have k: "map o_key (bucket_rows (js ''b'') (objects store_ffff)) = [[95, 65535, 97]]"
    unfolding rows by (simp add: store_ffff_objects meta_row_def)
  show ?thesis
    using ub l k by (simp add: startsWith_def)
qed

subsection \<open>Authentication failures\<close>

lemma extract_token_bearer: "extract_token (js ''Bearer '' @ token) = Inr token"
  by (simp add: extract_token_def startsWith_def js_def)

lemma truthy_bearer: "truthy (Some (js ''Bearer '' @ token))"
  by (simp add: truthy_def js_def)

text \<open>
  Claim C7, where the code departs from it. A bearer token other than \<open>foo\<close> that splits
  on \<open>.\<close> into three parts, and whose middle part \<open>atob\<close> rejects (or decodes to text
  that \<open>JSON.parse\<close> rejects, or to the JSON value \<open>null\<close>), makes \<open>fetch\<close> throw: the
  decoding runs outside every \<open>try\<close>, so no XML error envelope and no status is
  produced.
\<close>

theorem C7_undecodable_payload_uncaught:
  assumes up: "req_upgrade req \<noteq> Some (js ''websocket'')"
    and path: "filter (\<lambda>p. p \<noteq> []) (split slash (req_pathname req)) = bucket # rest"
    and auth: "req_authorization req = Some (js ''Bearer '' @ token)"
    and tok: "token \<noteq> js ''foo''"
    and parts: "split 46 token = [hd_part, payload_part, sig_part]"
    and bad: "pf_atob P payload_part = None
              \<or> pf_JSON_parse P (case pf_atob P payload_part of None \<Rightarrow> [] | Some x \<Rightarrow> x) = None
              \<or> pf_JSON_parse P (case pf_atob P payload_part of None \<Rightarrow> [] | Some x \<Rightarrow> x)
                   = Some JNull"
  shows "fetch P d req e = (Uncaught, e, [])"
proof -
  have a: "(\<not> truthy (req_authorization req)) = False"
    by (simp add: auth truthy_bearer)
  have t: "extract_token (case req_authorization req of None \<Rightarrow> [] | Some h \<Rightarrow> h) = Inr token"
    by (simp add: auth extract_token_bearer)
  have l: "(length [hd_part, payload_part, sig_part] \<noteq> 3) = False"
    and n: "[hd_part, payload_part, sig_part] ! 1 = payload_part"
    by simp_all
  show ?thesis
    unfolding fetch_def if_not_P[OF up] path list.case a if_False t sum.case if_not_P[OF tok]
      Let_def parts l n
    using bad by (cases "pf_atob P payload_part") auto
qed

theorem C7_undecodable_payload_witness:
  "fetch null_platform draw0
     ((bare_request ''GET'' ''/b/k'')\<lparr>req_authorization := Some (js ''Bearer x.!.y'')\<rparr>) engine0
   = (Uncaught, engine0, [])"
proof -
  let ?req = "(bare_request ''GET'' ''/b/k'')\<lparr>req_authorization := Some (js ''Bearer x.!.y'')\<rparr>"
  have up: "req_upgrade ?req \<noteq> Some (js ''websocket'')"
    by (simp add: bare_request_def)
  have path: "filter (\<lambda>p. p \<noteq> []) (split slash (req_pathname ?req)) = js ''b'' # [js ''k'']"
    by (simp add: bare_request_def js_def slash_def)
  have auth: "req_authorization ?req = Some (js ''Bearer '' @ js ''x.!.y'')"
    by (simp add: js_def)
  have tok: "js ''x.!.y'' \<noteq> js ''foo''" by (simp add: js_def)
  have parts: "split 46 (js ''x.!.y'') = [js ''x'', js ''!'', js ''y'']"
    by (simp add: js_def)
  have bad: "pf_atob null_platform (js ''!'') = None
             \<or> pf_JSON_parse null_platform
                  (case pf_atob null_platform (js ''!'') of None \<Rightarrow> [] | Some x \<Rightarrow> x) = None
             \<or> pf_JSON_parse null_platform
                  (case pf_atob null_platform (js ''!'') of None \<Rightarrow> [] | Some x \<Rightarrow> x)
                  = Some JNull"
    by (simp add: null_platform_def js_def)
  show ?thesis
    by (rule C7_undecodable_payload_uncaught[OF up path auth tok parts bad])
qed

subsection \<open>Requests that are not broadcast\<close>

lemma extract_token_foo:
  "extract_token (js ''Bearer foo'') = Inr (js ''foo'')"
  by (simp add: extract_token_def startsWith_def js_def)

text \<open>
  Claim C8, where the code departs from it. A request authenticated with the dev token
  \<open>foo\<close> is handled and answered, and no event is sent to any subscriber (the subscriber
  set is left as it was): the branch returns the handler's response without calling
  \<open>broadcastRequestInfo\<close>.
\<close>

theorem C8_dev_token_request_not_broadcast:
  assumes up: "req_upgrade req \<noteq> Some (js ''websocket'')"
    and auth: "req_authorization req = Some (js ''Bearer foo'')"
  shows "snd (snd (fetch P d req e)) = []
         \<and> webSocketClients (fst (snd (fetch P d req e))) = webSocketClients e"
proof -
  have a: "(\<not> truthy (req_authorization req)) = False"
    by (simp add: auth truthy_def js_def)
  have t: "extract_token (case req_authorization req of None \<Rightarrow> [] | Some h \<Rightarrow> h)
             = Inr (js ''foo'')"
    by (simp add: auth extract_token_foo)
  show ?thesis
  proof (cases "filter (\<lambda>p. p \<noteq> []) (split slash (req_pathname req))")
    case Nil
    then show ?thesis
      unfolding fetch_def if_not_P[OF up] by simp
  next
    case (Cons bucket rest)
    show ?thesis
    proof (cases "extract_key P (req_pathname req) bucket")
      case None
      then show ?thesis
        unfolding fetch_def if_not_P[OF up] Cons list.case a if_False t sum.case
        by simp
    next
      case (Some key)
      obtain response s' where h: "handleRequest P d bucket key req (sql e) = (response, s')"
        by (cases "handleRequest P d bucket key req (sql e)")
      show ?thesis
        unfolding fetch_def if_not_P[OF up] Cons list.case a if_False t sum.case
        by (simp add: Some h)
    qed
  qed
qed

theorem C8_dev_token_request_witness:
  "webSocketClients engine1 = [7]
   \<and> fetch null_platform draw0
        ((bare_request ''GET'' ''/b/k'')\<lparr>req_authorization := Some (js ''Bearer foo'')\<rparr>) engine1
      = (Responded (errorResponse NoSuchKey ''The specified key does not exist.'' 404),
         engine1, [])"
proof -
  let ?req = "(bare_request ''GET'' ''/b/k'')\<lparr>req_authorization := Some (js ''Bearer foo'')\<rparr>"
  have up: "req_upgrade ?req \<noteq> Some (js ''websocket'')"
    by (simp add: bare_request_def)
  have auth: "req_authorization ?req = Some (js ''Bearer foo'')"
    by simp
  have path: "filter (\<lambda>p. p \<noteq> []) (split slash (req_pathname ?req)) = js ''b'' # [js ''k'']"
    by (simp add: bare_request_def js_def slash_def)
  have key: "extract_key null_platform (req_pathname (bare_request ''GET'' ''/b/k'')) (js ''b'')
               = Some (js ''k'')"
    by (simp add: extract_key_def bare_request_def null_platform_def startsWith_def js_def
          slash_def)
  have get: "getObject empty_store (js ''b'') (js ''k'') False
               = errorResponse NoSuchKey ''The specified key does not exist.'' 404"
    by (simp add: getObject_def select_chunk0_def empty_store_def)
  have m: "req_method ?req = js ''GET''" by (simp add: bare_request_def)
  have ne: "js ''GET'' \<noteq> js ''HEAD''" "js ''k'' \<noteq> []" by (simp_all add: js_def)
  have hr: "handleRequest null_platform draw0 (js ''b'') (js ''k'') ?req (sql engine1)
              = (errorResponse NoSuchKey ''The specified key does not exist.'' 404, sql engine1)"
    unfolding handleRequest_def Let_def m by (simp add: get ne engine1_def)
  have ne2: "js ''Bearer foo'' \<noteq> []" by (simp add: js_def)
  have f: "fst (fetch null_platform draw0 ?req engine1)
             = Responded (errorResponse NoSuchKey ''The specified key does not exist.'' 404)"
    and s: "sql (fst (snd (fetch null_platform draw0 ?req engine1))) = sql engine1"
    unfolding fetch_def if_not_P[OF up] path list.case
    by (simp_all add: truthy_def extract_token_foo key hr ne2)
  have e: "fst (snd (fetch null_platform draw0 ?req engine1)) = engine1"
    using C8_dev_token_request_not_broadcast[OF up auth, of null_platform draw0 engine1] s
    by (cases "fst (snd (fetch null_platform draw0 ?req engine1))") (simp add: engine1_def)
  show ?thesis
    using C8_dev_token_request_not_broadcast[OF up auth, of null_platform draw0 engine1] f e
    by (simp add: engine1_def prod_eq_iff)
qed

subsection \<open>CompleteMultipartUpload\<close>

lemma complete_rows_Nil [simp]: "complete_rows meta i [] = []"
  by (simp add: complete_rows_def)

lemma complete_rows_Cons [simp]:
  "complete_rows meta i (c # cs) = complete_row meta i c # complete_rows meta (Suc i) cs"
  by (simp add: complete_rows_def)

lemma complete_rows_append:
  "complete_rows meta i (xs @ ys)
     = complete_rows meta i xs @ complete_rows meta (i + length xs) ys"
  by (induction xs arbitrary: i) simp_all

lemma complete_row_pk:
  "o_chunk_index meta = 0 \<Longrightarrow>
   obj_pk (complete_row meta i c) = (o_bucket meta, o_key meta, i)"
  by (simp add: complete_row_def obj_pk_def chunk_row_def)

lemma complete_chunks_eq:
  "o_chunk_index meta = 0 \<Longrightarrow>
   (\<And>r. r \<in> set t \<Longrightarrow> is_object (o_bucket meta) (o_key meta) r \<Longrightarrow> o_chunk_index r < i) \<Longrightarrow>
   complete_chunks meta chunks i t = Inr (i + length chunks, t @ complete_rows meta i chunks)"
proof (induction chunks arbitrary: i t)
  case Nil
  then show ?case by simp
next
  case (Cons c cs)
  define row where "row = complete_row meta i c"
  have pk: "obj_pk row = (o_bucket meta, o_key meta, i)"
    unfolding row_def using Cons.prems(1) by (rule complete_row_pk)
  have fresh: "obj_pk row \<notin> obj_pk ` set t"
  proof
    assume "obj_pk row \<in> obj_pk ` set t"
    then obtain r where r: "r \<in> set t" "obj_pk r = obj_pk row" by auto
    with pk have "is_object (o_bucket meta) (o_key meta) r" "o_chunk_index r = i"
      by (auto simp: obj_pk_def is_object_def)
    with Cons.prems(2)[OF r(1)] show False by simp
  qed
  then have ins: "insert_object row t = Some (t @ [row])"
    by (rule insert_object_fresh)
  have "complete_chunks meta cs (Suc i) (t @ [row])
          = Inr (Suc i + length cs, (t @ [row]) @ complete_rows meta (Suc i) cs)"
  proof (rule Cons.IH[OF Cons.prems(1)])
    fix r assume "r \<in> set (t @ [row])" "is_object (o_bucket meta) (o_key meta) r"
    then show "o_chunk_index r < Suc i"
      using Cons.prems(2)[of r] pk by (auto simp: obj_pk_def less_Suc_eq)
  qed
  then show ?case
    using ins by (simp add: row_def[symmetric] complete_row_def[symmetric])
qed

lemma complete_rows_is_object:
  "o_chunk_index meta = 0 \<Longrightarrow> r \<in> set (complete_rows meta i cs) \<Longrightarrow>
   is_object (o_bucket meta) (o_key meta) r"
proof (induction cs arbitrary: i)
  case Nil
  then show ?case by simp
next
  case (Cons c cs)
  then show ?case
    by (auto simp: complete_row_def chunk_row_def is_object_def)
qed

lemma complete_rows_index:
  "o_chunk_index meta = 0 \<Longrightarrow>
   map o_chunk_index (complete_rows meta i cs) = [i..<i + length cs]"
proof (induction cs arbitrary: i)
  case Nil
  then show ?case by simp
next
  case (Cons c cs)
  have "o_chunk_index (complete_row meta i c) = i"
    using Cons.prems by (simp add: complete_row_def chunk_row_def)
  with Cons show ?case by (simp add: upt_rec)
qed

lemma complete_rows_data: "map o_data (complete_rows meta i cs) = map p_data cs"
  by (induction cs arbitrary: i) (simp_all add: complete_row_def chunk_row_def)

lemma complete_parts_eq:
  "o_chunk_index meta = 0 \<Longrightarrow>
   (\<And>r. r \<in> set t \<Longrightarrow> is_object (o_bucket meta) (o_key meta) r \<Longrightarrow> o_chunk_index r < i) \<Longrightarrow>
   complete_parts meta uploadId pt parts i t
     = Inr (i + length (all_part_chunks uploadId pt parts),
            t @ complete_rows meta i (all_part_chunks uploadId pt parts))"
proof (induction parts arbitrary: i t)
  case Nil
  then show ?case by (simp add: all_part_chunks_def)
next
  case (Cons part parts)
  define cs where "cs = select_part_chunks uploadId (p_part_number part) pt"
  have step: "complete_chunks meta cs i t = Inr (i + length cs, t @ complete_rows meta i cs)"
    using Cons.prems by (intro complete_chunks_eq) auto
  have rest: "complete_parts meta uploadId pt parts (i + length cs) (t @ complete_rows meta i cs)
                = Inr (i + length cs + length (all_part_chunks uploadId pt parts),
                       (t @ complete_rows meta i cs)
                       @ complete_rows meta (i + length cs) (all_part_chunks uploadId pt parts))"
  proof (rule Cons.IH[OF Cons.prems(1)])
    fix r
    assume r: "r \<in> set (t @ complete_rows meta i cs)"
      and o: "is_object (o_bucket meta) (o_key meta) r"
    show "o_chunk_index r < i + length cs"
    proof (cases "r \<in> set t")
      case True
      with Cons.prems(2)[OF True o] show ?thesis by simp
    next
      case False
      with r have "r \<in> set (complete_rows meta i cs)" by simp
      then have "o_chunk_index r \<in> set (map o_chunk_index (complete_rows meta i cs))"
        by simp
      then show ?thesis
        by (simp add: complete_rows_index[OF Cons.prems(1)])
    qed
  qed
  have all: "all_part_chunks uploadId pt (part # parts)
               = cs @ all_part_chunks uploadId pt parts"
    by (simp add: all_part_chunks_def cs_def)
  show ?case
    unfolding all
    by (simp add: cs_def[symmetric] step rest complete_rows_append add.assoc)
qed

lemma meta_row_index [simp]: "o_chunk_index (meta_row b k sz e l c d) = 0"
  and meta_row_bucket [simp]: "o_bucket (meta_row b k sz e l c d) = b"
  and meta_row_key [simp]: "o_key (meta_row b k sz e l c d) = k"
  and meta_row_size [simp]: "o_size (meta_row b k sz e l c d) = sz"
  by (simp_all add: meta_row_def)

text \<open>The successful run of \<open>completeMultipartUpload\<close>: a session row exists and at least
  one part has a chunk 0.\<close>

lemma completeMultipartUpload_eq:
  assumes up: "filter (\<lambda>u. u_upload_id u = uploadId) (multipart_uploads s) = upload # others"
    and ne: "select_parts uploadId (multipart_parts s) \<noteq> []"
  shows "completeMultipartUpload uuid now bucket key uploadId s
     = (xmlResponse (CompleteMultipartUploadResult bucket key
          (quoted (filter (\<lambda>c. c \<noteq> 45) uuid @ js ''-''
                   @ decimal (length (select_parts uploadId (multipart_parts s)))))),
        s\<lparr>objects := delete_object_rows bucket key (objects s)
              @ complete_rows
                  (complete_meta uuid now bucket key upload
                     (select_parts uploadId (multipart_parts s))) 0
                  (all_part_chunks uploadId (multipart_parts s)
                     (select_parts uploadId (multipart_parts s))),
          multipart_parts := filter (\<lambda>r. p_upload_id r \<noteq> uploadId) (multipart_parts s),
          multipart_uploads := filter (\<lambda>u. u_upload_id u \<noteq> uploadId) (multipart_uploads s)\<rparr>)"
proof -
  define parts where "parts = select_parts uploadId (multipart_parts s)"
  define meta where "meta = complete_meta uuid now bucket key upload parts"
  define t1 where "t1 = delete_object_rows bucket key (objects s)"
  have loop: "complete_parts meta uploadId (multipart_parts s) parts 0 t1
                = Inr (0 + length (all_part_chunks uploadId (multipart_parts s) parts),
                       t1 @ complete_rows meta 0 (all_part_chunks uploadId (multipart_parts s) parts))"
  proof (rule complete_parts_eq)
    show "o_chunk_index meta = 0" by (simp add: meta_def complete_meta_def)
    fix r assume "r \<in> set t1" "is_object (o_bucket meta) (o_key meta) r"
    then show "o_chunk_index r < 0"
      using delete_object_rows_none[of r bucket key "objects s"]
      by (simp add: t1_def meta_def complete_meta_def)
  qed
  show ?thesis
    using ne loop
    unfolding completeMultipartUpload_def up list.case Let_def parts_def meta_def t1_def
      complete_meta_def
    by simp
qed

subsection \<open>The chunk layout is kept by every operation\<close>

lemma select_chunks_empty_iff:
  "select_chunks b k t = [] \<longleftrightarrow> (\<forall>r \<in> set t. \<not> is_object b k r)"
  by (simp add: select_chunks_def sort_key_Nil_iff filter_empty_conv)

lemma select_part_chunks_empty_iff:
  "select_part_chunks u n pt = [] \<longleftrightarrow> (\<forall>r \<in> set pt. \<not> is_part u n r)"
  by (simp add: select_part_chunks_def sort_key_Nil_iff filter_empty_conv)

lemma objects_ok_iff: "objects_ok t \<longleftrightarrow> (\<forall>b k. object_ok t b k)"
proof
  assume a: "objects_ok t"
  show "\<forall>b k. object_ok t b k"
  proof (intro allI)
    fix b k
    show "object_ok t b k"
    proof (cases "select_chunks b k t = []")
      case True
      then show ?thesis by (simp add: object_ok_def)
    next
      case False
      then obtain r where r: "r \<in> set t" "is_object b k r"
        by (auto simp: select_chunks_empty_iff)
      with a have "object_ok t (o_bucket r) (o_key r)"
        by (simp add: objects_ok_def list_all_iff)
      with r(2) show ?thesis by (simp add: is_object_def)
    qed
  qed
next
  assume "\<forall>b k. object_ok t b k"
  then show "objects_ok t" by (simp add: objects_ok_def list_all_iff)
qed

lemma parts_ok_iff: "parts_ok pt \<longleftrightarrow> (\<forall>u n. part_ok pt u n)"
proof
  assume a: "parts_ok pt"
  show "\<forall>u n. part_ok pt u n"
  proof (intro allI)
    fix u n
    show "part_ok pt u n"
    proof (cases "select_part_chunks u n pt = []")
      case True
      then show ?thesis by (simp add: part_ok_def)
    next
      case False
      then obtain r where r: "r \<in> set pt" "is_part u n r"
        by (auto simp: select_part_chunks_empty_iff)
      with a have "part_ok pt (p_upload_id r) (p_part_number r)"
        by (simp add: parts_ok_def list_all_iff)
      with r(2) show ?thesis by (simp add: is_part_def)
    qed
  qed
next
  assume "\<forall>u n. part_ok pt u n"
  then show "parts_ok pt" by (simp add: parts_ok_def list_all_iff)
qed

lemma object_ok_rows:
  "select_chunks b k t = rows \<Longrightarrow> rows \<noteq> [] \<Longrightarrow>
   object_ok t b k = chunks_ok (map o_chunk_index rows) (o_size (hd rows)) (map o_data rows)"
  by (cases rows) (simp_all add: object_ok_def)

lemma part_ok_rows:
  "select_part_chunks u n pt = rows \<Longrightarrow> rows \<noteq> [] \<Longrightarrow>
   part_ok pt u n = chunks_ok (map p_chunk_index rows) (p_size (hd rows)) (map p_data rows)"
  by (cases rows) (simp_all add: part_ok_def)

lemma chunks_bounded:
  "list_all (\<lambda>d. length d \<le> CHUNK_SIZE) (take CHUNK_SIZE data # chunks_from data CHUNK_SIZE)"
  by (simp add: list_all_iff chunks_from_bounded)

lemma put_object_rows_ok:
  "chunks_ok (map o_chunk_index (put_object_rows md5 now b k data h))
     (o_size (hd (put_object_rows md5 now b k data h)))
     (map o_data (put_object_rows md5 now b k data h))"
proof -
  have d: "map o_data (put_object_rows md5 now b k data h)
             = take CHUNK_SIZE data # chunks_from data CHUNK_SIZE"
    by (simp add: put_object_rows_def put_rows_data meta_row_def)
  have c: "concat (take CHUNK_SIZE data # chunks_from data CHUNK_SIZE) = data"
    by (simp add: concat_chunks_from)
  show ?thesis
    unfolding chunks_ok_def d put_object_rows_index hd_put_object_rows c
    using chunks_bounded by simp
qed

lemma upload_part_rows_ok:
  "chunks_ok (map p_chunk_index (upload_part_rows md5 u n data))
     (p_size (hd (upload_part_rows md5 u n data)))
     (map p_data (upload_part_rows md5 u n data))"
proof -
  have d: "map p_data (upload_part_rows md5 u n data)
             = take CHUNK_SIZE data # chunks_from data CHUNK_SIZE"
    by (simp add: upload_part_rows_def part_rows_data part_chunk_row_def)
  have c: "concat (take CHUNK_SIZE data # chunks_from data CHUNK_SIZE) = data"
    by (simp add: concat_chunks_from)
  have h: "p_size (hd (upload_part_rows md5 u n data)) = length data"
    by (simp add: upload_part_rows_def part_chunk_row_def)
  show ?thesis
    unfolding chunks_ok_def d upload_part_rows_index h c
    using chunks_bounded by simp
qed

lemma objects_ok_putObject:
  assumes "objects_ok (objects s)"
  shows "objects_ok (objects (snd (putObject md5 now b k data h s)))"
  unfolding objects_ok_iff
proof (intro allI)
  fix b' k'
  show "object_ok (objects (snd (putObject md5 now b k data h s))) b' k'"
  proof (cases "b' = b \<and> k' = k")
    case True
    then have "select_chunks b' k' (objects (snd (putObject md5 now b k data h s)))
                 = put_object_rows md5 now b k data h"
      by (simp add: select_chunks_putObject)
    moreover have "put_object_rows md5 now b k data h \<noteq> []"
      by (simp add: put_object_rows_def)
    ultimately show ?thesis
      by (simp add: object_ok_rows put_object_rows_ok)
  next
    case False
    then have "select_chunks b' k' (objects (snd (putObject md5 now b k data h s)))
                 = select_chunks b' k' (objects s)"
      by (simp only: select_chunks_putObject if_False)
    moreover have "object_ok (objects s) b' k'"
      using assms by (simp add: objects_ok_iff)
    ultimately show ?thesis by (simp add: object_ok_def)
  qed
qed

lemma objects_ok_delete:
  assumes "objects_ok t"
  shows "objects_ok (delete_object_rows b k t)"
  unfolding objects_ok_iff
proof (intro allI)
  fix b' k'
  have "object_ok t b' k'" using assms by (simp add: objects_ok_iff)
  then show "object_ok (delete_object_rows b k t) b' k'"
    by (cases "b' = b \<and> k' = k") (simp_all add: object_ok_def select_chunks_delete)
qed

lemma parts_ok_uploadPart_Num:
  assumes "parts_ok (multipart_parts s)"
  shows "parts_ok (multipart_parts (snd (uploadPart md5 b k u (Num n) data s)))"
  unfolding parts_ok_iff
proof (intro allI)
  fix u' n'
  show "part_ok (multipart_parts (snd (uploadPart md5 b k u (Num n) data s))) u' n'"
  proof (cases "u' = u \<and> n' = n")
    case True
    then have "select_part_chunks u' n' (multipart_parts (snd (uploadPart md5 b k u (Num n) data s)))
                 = upload_part_rows md5 u n data"
      by (simp add: select_part_chunks_uploadPart)
    moreover have "upload_part_rows md5 u n data \<noteq> []"
      by (simp add: upload_part_rows_def)
    ultimately show ?thesis
      by (simp add: part_ok_rows upload_part_rows_ok)
  next
    case False
    then have "select_part_chunks u' n' (multipart_parts (snd (uploadPart md5 b k u (Num n) data s)))
                 = select_part_chunks u' n' (multipart_parts s)"
      by (simp only: select_part_chunks_uploadPart if_False)
    moreover have "part_ok (multipart_parts s) u' n'"
      using assms by (simp add: parts_ok_iff)
    ultimately show ?thesis by (simp add: part_ok_def)
  qed
qed

lemma parts_ok_uploadPart:
  assumes "parts_ok (multipart_parts s)"
  shows "parts_ok (multipart_parts (snd (uploadPart md5 b k u partNumber data s)))"
proof (cases partNumber)
  case NaN
  with assms show ?thesis by (simp add: uploadPart_NaN)
next
  case (Num n)
  with assms show ?thesis by (simp add: parts_ok_uploadPart_Num)
qed

lemma select_part_chunks_drop_upload:
  "select_part_chunks u n (filter (\<lambda>r. p_upload_id r \<noteq> u') pt)
     = (if u = u' then [] else select_part_chunks u n pt)"
proof (cases "u = u'")
  case True
  then have "filter (is_part u n) (filter (\<lambda>r. p_upload_id r \<noteq> u') pt) = []"
    by (auto simp: filter_empty_conv is_part_def)
  with True show ?thesis by (simp add: select_part_chunks_def)
next
  case False
  have "filter (\<lambda>r. p_upload_id r \<noteq> u' \<and> is_part u n r) pt = filter (is_part u n) pt"
  proof (rule filter_cong[OF refl])
    fix r show "(p_upload_id r \<noteq> u' \<and> is_part u n r) = is_part u n r"
      using False by (auto simp: is_part_def)
  qed
  then show ?thesis
    by (simp only: if_not_P[OF False] select_part_chunks_def filter_filter)
qed

lemma parts_ok_drop_upload:
  assumes "parts_ok pt"
  shows "parts_ok (filter (\<lambda>r. p_upload_id r \<noteq> u) pt)"
  unfolding parts_ok_iff
proof (intro allI)
  fix u' n'
  have "part_ok pt u' n'" using assms by (simp add: parts_ok_iff)
  then show "part_ok (filter (\<lambda>r. p_upload_id r \<noteq> u) pt) u' n'"
    by (cases "u' = u") (simp_all add: part_ok_def select_part_chunks_drop_upload)
qed

subsection \<open>CopyObject keeps the chunk layout\<close>

lemma copy_row_index [simp]: "o_chunk_index (copy_row b k m now c) = o_chunk_index c"
  by (simp add: copy_row_def chunk_row_def)

lemma copy_row_data [simp]: "o_data (copy_row b k m now c) = o_data c"
  by (simp add: copy_row_def chunk_row_def meta_row_def)

lemma copy_row_is_object [simp]: "is_object b k (copy_row b k m now c)"
  by (simp add: copy_row_def chunk_row_def is_object_def)

lemma copy_row_bucket [simp]: "o_bucket (copy_row b k m now c) = b"
  by (simp add: copy_row_def chunk_row_def)

lemma copy_row_key [simp]: "o_key (copy_row b k m now c) = k"
  by (simp add: copy_row_def chunk_row_def)

lemma copy_row_pk: "obj_pk (copy_row b k m now c) = (b, k, o_chunk_index c)"
  by (simp add: copy_row_def chunk_row_def obj_pk_def)

lemma copy_chunks_eq:
  "distinct (map o_chunk_index chunks) \<Longrightarrow>
   (\<And>r. r \<in> set t \<Longrightarrow> is_object b k r \<Longrightarrow> o_chunk_index r \<notin> o_chunk_index ` set chunks) \<Longrightarrow>
   copy_chunks b k m now chunks t = Inr (t @ map (copy_row b k m now) chunks)"
proof (induction chunks arbitrary: t)
  case Nil
  then show ?case by simp
next
  case (Cons c cs)
  define row where "row = copy_row b k m now c"
  have fresh: "obj_pk row \<notin> obj_pk ` set t"
  proof
    assume "obj_pk row \<in> obj_pk ` set t"
    then obtain r where r: "r \<in> set t" "obj_pk r = obj_pk row" by auto
    then have "is_object b k r" "o_chunk_index r = o_chunk_index c"
      by (auto simp: row_def copy_row_pk obj_pk_def is_object_def)
    with Cons.prems(2)[OF r(1)] show False by simp
  qed
  then have ins: "insert_object row t = Some (t @ [row])"
    by (rule insert_object_fresh)
  have "copy_chunks b k m now cs (t @ [row]) = Inr ((t @ [row]) @ map (copy_row b k m now) cs)"
  proof (rule Cons.IH)
    show "distinct (map o_chunk_index cs)" using Cons.prems(1) by simp
    fix r assume r: "r \<in> set (t @ [row])" "is_object b k r"
    show "o_chunk_index r \<notin> o_chunk_index ` set cs"
    proof (cases "r \<in> set t")
      case True
      with Cons.prems(2)[OF True r(2)] show ?thesis by simp
    next
      case False
      with r have "r = row" by simp
      then show ?thesis using Cons.prems(1) by (simp add: row_def)
    qed
  qed
  then show ?case
    using ins by (simp add: row_def[symmetric] copy_row_def[symmetric])
qed

text \<open>The two ways \<open>copyObject\<close> can end: the store is untouched (an error response), or
  the destination rows are deleted and the copy loop has run.\<close>

lemma copyObject_store:
  "snd (copyObject decode now bucket destKey copySource s) = s
   \<or> (\<exists>sourceKey m ms.
         select_chunk0 bucket sourceKey (objects s) = m # ms
         \<and> snd (copyObject decode now bucket destKey copySource s)
             = s\<lparr>objects :=
                   (case copy_chunks bucket destKey m now
                           (select_chunks bucket sourceKey
                              (delete_object_rows bucket destKey (objects s)))
                           (delete_object_rows bucket destKey (objects s)) of
                      Inl t \<Rightarrow> t | Inr t \<Rightarrow> t)\<rparr>)"
proof -
  define sourcePath where
    "sourcePath = (if take 1 copySource = [slash] then drop 1 copySource else copySource)"
  show ?thesis
  proof (cases "indexOf slash sourcePath")
    case None
    then show ?thesis
      unfolding copyObject_def Let_def sourcePath_def[symmetric] by simp
  next
    case (Some slashIndex)
    show ?thesis
    proof (cases "decode (drop (slashIndex + 1) sourcePath)")
      case None
      with Some show ?thesis
        unfolding copyObject_def Let_def sourcePath_def[symmetric] by simp
    next
      case (Some sourceKey)
      note dec = this
      show ?thesis
      proof (cases "take slashIndex sourcePath = bucket")
        case False
        with \<open>indexOf slash sourcePath = Some slashIndex\<close> dec show ?thesis
          unfolding copyObject_def Let_def sourcePath_def[symmetric] by simp
      next
        case True
        show ?thesis
        proof (cases "select_chunk0 bucket sourceKey (objects s)")
          case Nil
          with \<open>indexOf slash sourcePath = Some slashIndex\<close> dec True show ?thesis
            unfolding copyObject_def Let_def sourcePath_def[symmetric] by simp
        next
          case (Cons m ms)
          have "snd (copyObject decode now bucket destKey copySource s)
             = s\<lparr>objects :=
                   (case copy_chunks bucket destKey m now
                           (select_chunks bucket sourceKey
                              (delete_object_rows bucket destKey (objects s)))
                           (delete_object_rows bucket destKey (objects s)) of
                      Inl t \<Rightarrow> t | Inr t \<Rightarrow> t)\<rparr>"
            unfolding copyObject_def Let_def sourcePath_def[symmetric]
            using \<open>indexOf slash sourcePath = Some slashIndex\<close> dec True Cons
            by (simp split: sum.splits)
          with Cons show ?thesis by blast
        qed
      qed
    qed
  qed
qed

lemma object_ok_distinct:
  assumes "object_ok t b k"
  shows "distinct (map o_chunk_index (select_chunks b k t))"
proof (cases "select_chunks b k t")
  case Nil
  then show ?thesis by simp
next
  case (Cons c0 cs)
  with assms have "map o_chunk_index (select_chunks b k t) = [0..<length (c0 # cs)]"
    by (simp add: object_ok_def chunks_ok_def)
  then show ?thesis by (simp only: distinct_upt)
qed

lemma select_chunks_is_object: "r \<in> set (select_chunks b k t) \<Longrightarrow> is_object b k r"
  by (simp add: select_chunks_def)

lemma objects_ok_copyObject:
  assumes ok: "objects_ok (objects s)"
  shows "objects_ok (objects (snd (copyObject decode now bucket destKey copySource s)))"
proof -
  from copyObject_store[of decode now bucket destKey copySource s]
  show ?thesis
  proof (elim disjE exE conjE)
    assume "snd (copyObject decode now bucket destKey copySource s) = s"
    with ok show ?thesis by simp
  next
    fix sourceKey m ms
    assume m: "select_chunk0 bucket sourceKey (objects s) = m # ms"
      and st: "snd (copyObject decode now bucket destKey copySource s)
             = s\<lparr>objects :=
                   (case copy_chunks bucket destKey m now
                           (select_chunks bucket sourceKey
                              (delete_object_rows bucket destKey (objects s)))
                           (delete_object_rows bucket destKey (objects s)) of
                      Inl t \<Rightarrow> t | Inr t \<Rightarrow> t)\<rparr>"
    define t1 where "t1 = delete_object_rows bucket destKey (objects s)"
    define chunks where "chunks = select_chunks bucket sourceKey t1"
    define rows where "rows = map (copy_row bucket destKey m now) chunks"
    have src_ok: "object_ok (objects s) bucket sourceKey"
      using ok by (simp add: objects_ok_iff)
    have chunks_eq: "chunks = (if sourceKey = destKey then []
                               else select_chunks bucket sourceKey (objects s))"
      by (simp add: chunks_def t1_def select_chunks_delete)
    have dist: "distinct (map o_chunk_index chunks)"
      using object_ok_distinct[OF src_ok] by (simp add: chunks_eq)
    have loop: "copy_chunks bucket destKey m now chunks t1 = Inr (t1 @ rows)"
      unfolding rows_def
    proof (rule copy_chunks_eq[OF dist])
      fix r assume "r \<in> set t1" "is_object bucket destKey r"
      then show "o_chunk_index r \<notin> o_chunk_index ` set chunks"
        using delete_object_rows_none[of r bucket destKey "objects s"] by (simp add: t1_def)
    qed
    have obj: "objects (snd (copyObject decode now bucket destKey copySource s)) = t1 @ rows"
      by (simp add: st t1_def[symmetric] chunks_def[symmetric] loop)
    have idx: "map o_chunk_index rows = map o_chunk_index chunks"
      by (simp add: rows_def)
    have dat: "map o_data rows = map o_data chunks"
      by (simp add: rows_def)
    have sorted_rows: "sorted (map o_chunk_index rows)"
      unfolding idx chunks_def select_chunks_def
      using sorted_sort_key[of o_chunk_index] by simp
    have rows_is: "\<And>r. r \<in> set rows \<Longrightarrow> is_object bucket destKey r"
      by (auto simp: rows_def)
    have sel: "\<And>b k. select_chunks b k (t1 @ rows)
                 = (if b = bucket \<and> k = destKey then rows else select_chunks b k (objects s))"
      unfolding t1_def
      by (rule select_chunks_replace[OF rows_is sorted_rows])
    show ?thesis
      unfolding obj objects_ok_iff
    proof (intro allI)
      fix b k
      show "object_ok (t1 @ rows) b k"
      proof (cases "b = bucket \<and> k = destKey")
        case False
        then have "select_chunks b k (t1 @ rows) = select_chunks b k (objects s)"
          by (simp only: sel if_False)
        moreover have "object_ok (objects s) b k" using ok by (simp add: objects_ok_iff)
        ultimately show ?thesis by (simp add: object_ok_def)
      next
        case True
        then have s1: "select_chunks b k (t1 @ rows) = rows" by (simp add: sel)
        show ?thesis
        proof (cases "chunks = []")
          case True
          then have "rows = []" by (simp add: rows_def)
          with s1 have "select_chunks b k (t1 @ rows) = []" by simp
          then show ?thesis by (simp add: object_ok_def)
        next
          case False
          with chunks_eq have ce: "chunks = select_chunks bucket sourceKey (objects s)"
            by (simp split: if_splits)
          from False obtain c0 cs where c: "chunks = c0 # cs" by (cases chunks) auto
          from src_ok c ce
          have cok: "chunks_ok (map o_chunk_index chunks) (o_size c0) (map o_data chunks)"
            by (simp add: object_ok_def)
          then have i0: "map o_chunk_index (select_chunks bucket sourceKey (objects s))
                           = [0..<Suc (length cs)]"
            by (simp add: chunks_ok_def ce[symmetric] c)
          have "select_chunk0 bucket sourceKey (objects s)
                  = [hd (select_chunks bucket sourceKey (objects s))]"
            using i0 by (rule select_chunk0_of_chunks)
          with m have mc: "m = c0" by (simp add: ce[symmetric] c)
          have "o_chunk_index c0 = 0"
            using i0 by (simp add: ce[symmetric] c upt_conv_Cons del: upt_Suc)
          then have hs: "o_size (hd rows) = o_size c0"
            by (simp add: rows_def c copy_row_def mc)
          have ne: "rows \<noteq> []" using False by (simp add: rows_def)
          show ?thesis
            using cok by (simp add: object_ok_rows[OF s1 ne] idx dat hs)
        qed
      qed
    qed
  qed
qed

subsection \<open>CompleteMultipartUpload keeps the chunk layout\<close>

lemma select_parts_member:
  "p \<in> set (select_parts u pt) \<Longrightarrow> p \<in> set pt \<and> p_upload_id p = u \<and> p_chunk_index p = 0"
  by (simp add: select_parts_def)

lemma part_is_head:
  assumes ok: "part_ok pt u (p_part_number p)"
    and p: "p \<in> set (select_parts u pt)"
  shows "select_part_chunks u (p_part_number p) pt \<noteq> []
         \<and> hd (select_part_chunks u (p_part_number p) pt) = p"
proof -
  define cs where "cs = select_part_chunks u (p_part_number p) pt"
  from select_parts_member[OF p]
  have mem: "p \<in> set pt" "p_upload_id p = u" "p_chunk_index p = 0" by simp_all
  then have pin: "p \<in> set cs"
    by (simp add: cs_def select_part_chunks_def is_part_def)
  then obtain c0 cs' where c: "cs = c0 # cs'" by (cases cs) auto
  with ok have "map p_chunk_index cs = [0..<Suc (length cs')]"
    by (simp add: part_ok_def cs_def[symmetric] chunks_ok_def)
  then have "filter (\<lambda>r. p_chunk_index r = 0) cs = [hd cs]"
    by (rule filter_index0)
  moreover have "p \<in> set (filter (\<lambda>r. p_chunk_index r = 0) cs)"
    using pin mem(3) by simp
  ultimately have "hd cs = p" by simp
  moreover have "cs \<noteq> []" using c by simp
  ultimately show ?thesis unfolding cs_def by blast
qed

lemma part_size_is_bytes:
  assumes ok: "part_ok pt u (p_part_number p)"
    and p: "p \<in> set (select_parts u pt)"
  shows "p_size p = length (concat (map p_data (select_part_chunks u (p_part_number p) pt)))"
proof -
  from part_is_head[OF ok p]
  obtain cs' where c: "select_part_chunks u (p_part_number p) pt = p # cs'"
    by (cases "select_part_chunks u (p_part_number p) pt") auto
  with ok show ?thesis by (simp add: part_ok_def chunks_ok_def)
qed

lemma length_all_part_chunks:
  assumes "\<And>p. p \<in> set parts \<Longrightarrow>
             p_size p = length (concat (map p_data (select_part_chunks u (p_part_number p) pt)))"
  shows "sum_list (map p_size parts) = length (concat (map p_data (all_part_chunks u pt parts)))"
  using assms
proof (induction parts)
  case Nil
  then show ?case by (simp add: all_part_chunks_def)
next
  case (Cons p ps)
  have "sum_list (map p_size ps) = length (concat (map p_data (all_part_chunks u pt ps)))"
    using Cons.prems by (intro Cons.IH) simp
  moreover have "p_size p = length (concat (map p_data (select_part_chunks u (p_part_number p) pt)))"
    using Cons.prems by simp
  ultimately show ?case by (simp add: all_part_chunks_def)
qed

lemma all_part_chunks_bounded:
  assumes ok: "\<And>n. part_ok pt u n"
    and c: "c \<in> set (all_part_chunks u pt parts)"
  shows "length (p_data c) \<le> CHUNK_SIZE"
proof -
  from c obtain p :: part_row where "c \<in> set (select_part_chunks u (p_part_number p) pt)"
    by (auto simp: all_part_chunks_def)
  moreover have "part_ok pt u (p_part_number p)" by (rule ok)
  ultimately show ?thesis
    by (cases "select_part_chunks u (p_part_number p) pt")
       (auto simp: part_ok_def chunks_ok_def list_all_iff)
qed

lemma all_part_chunks_nonempty:
  assumes ok: "\<And>n. part_ok pt u n"
    and ne: "select_parts u pt \<noteq> []"
  shows "all_part_chunks u pt (select_parts u pt) \<noteq> []"
proof -
  from ne obtain p ps where ps: "select_parts u pt = p # ps"
    by (cases "select_parts u pt") auto
  then have "p \<in> set (select_parts u pt)" by simp
  with part_is_head[OF ok] have "select_part_chunks u (p_part_number p) pt \<noteq> []" by simp
  with ps show ?thesis by (simp add: all_part_chunks_def)
qed

text \<open>The object that a successful \<open>completeMultipartUpload\<close> leaves under the key.\<close>

lemma complete_rows_ok:
  assumes ok: "\<And>n. part_ok pt u n"
    and ne: "select_parts u pt \<noteq> []"
  shows "chunks_ok
           (map o_chunk_index
              (complete_rows (complete_meta uuid now b k upload (select_parts u pt)) 0
                 (all_part_chunks u pt (select_parts u pt))))
           (o_size (hd (complete_rows (complete_meta uuid now b k upload (select_parts u pt)) 0
                          (all_part_chunks u pt (select_parts u pt)))))
           (map o_data
              (complete_rows (complete_meta uuid now b k upload (select_parts u pt)) 0
                 (all_part_chunks u pt (select_parts u pt))))"
proof -
  define parts where "parts = select_parts u pt"
  define meta where "meta = complete_meta uuid now b k upload parts"
  define al where "al = all_part_chunks u pt parts"
  have m0: "o_chunk_index meta = 0" by (simp add: meta_def complete_meta_def)
  have ane: "al \<noteq> []"
    unfolding al_def parts_def using ok ne by (rule all_part_chunks_nonempty)
  then obtain a as where a: "al = a # as" by (cases al) auto
  have sz: "o_size (hd (complete_rows meta 0 al)) = sum_list (map p_size parts)"
    by (simp add: a complete_row_def meta_def complete_meta_def)
  have sum: "sum_list (map p_size parts) = length (concat (map p_data al))"
    unfolding al_def
  proof (rule length_all_part_chunks)
    fix p assume "p \<in> set parts"
    then show "p_size p = length (concat (map p_data (select_part_chunks u (p_part_number p) pt)))"
      unfolding parts_def using ok by (intro part_size_is_bytes)
  qed
  have bd: "list_all (\<lambda>d. length d \<le> CHUNK_SIZE) (map p_data al)"
    unfolding al_def list_all_iff using all_part_chunks_bounded[of pt u _ parts, OF ok]
    by auto
  show ?thesis
    unfolding parts_def[symmetric] meta_def[symmetric] al_def[symmetric]
    unfolding chunks_ok_def complete_rows_index[OF m0] complete_rows_data sz sum
    using bd by simp
qed

lemma store_ok_complete:
  assumes ok: "store_ok s"
  shows "store_ok (snd (completeMultipartUpload uuid now b k u s))"
proof (cases "filter (\<lambda>x. u_upload_id x = u) (multipart_uploads s)")
  case Nil
  then show ?thesis using ok by (simp add: completeMultipartUpload_def)
next
  case (Cons upload others)
  show ?thesis
  proof (cases "select_parts u (multipart_parts s) = []")
    case True
    then show ?thesis using ok Cons by (simp add: completeMultipartUpload_def)
  next
    case False
    define rows where
      "rows = complete_rows (complete_meta uuid now b k upload (select_parts u (multipart_parts s)))
                0 (all_part_chunks u (multipart_parts s) (select_parts u (multipart_parts s)))"
    have pok: "\<And>n. part_ok (multipart_parts s) u n"
      using ok by (simp add: store_ok_def parts_ok_iff)
    have rok: "chunks_ok (map o_chunk_index rows) (o_size (hd rows)) (map o_data rows)"
      unfolding rows_def using pok False by (rule complete_rows_ok)
    have m0: "o_chunk_index (complete_meta uuid now b k upload (select_parts u (multipart_parts s)))
                = 0"
      by (simp add: complete_meta_def)
    have rne: "rows \<noteq> []"
      using all_part_chunks_nonempty[OF pok False]
      by (cases "all_part_chunks u (multipart_parts s) (select_parts u (multipart_parts s))")
         (simp_all add: rows_def)
    have ris: "\<And>r. r \<in> set rows \<Longrightarrow> is_object b k r"
      using complete_rows_is_object[OF m0] by (simp add: rows_def complete_meta_def)
    have rsorted: "sorted (map o_chunk_index rows)"
      by (simp only: rows_def complete_rows_index[OF m0] sorted_upt)
    have sel: "\<And>b' k'. select_chunks b' k' (delete_object_rows b k (objects s) @ rows)
                 = (if b' = b \<and> k' = k then rows else select_chunks b' k' (objects s))"
      by (rule select_chunks_replace[OF ris rsorted])
    have st: "snd (completeMultipartUpload uuid now b k u s)
                = s\<lparr>objects := delete_object_rows b k (objects s) @ rows,
                     multipart_parts := filter (\<lambda>r. p_upload_id r \<noteq> u) (multipart_parts s),
                     multipart_uploads := filter (\<lambda>x. u_upload_id x \<noteq> u) (multipart_uploads s)\<rparr>"
      by (simp add: completeMultipartUpload_eq[OF Cons False] rows_def)
    have "objects_ok (delete_object_rows b k (objects s) @ rows)"
      unfolding objects_ok_iff
    proof (intro allI)
      fix b' k'
      show "object_ok (delete_object_rows b k (objects s) @ rows) b' k'"
      proof (cases "b' = b \<and> k' = k")
        case True
        then have "select_chunks b' k' (delete_object_rows b k (objects s) @ rows) = rows"
          by (simp add: sel)
        then show ?thesis using rok by (simp add: object_ok_rows[OF _ rne])
      next
        case False
        then have "select_chunks b' k' (delete_object_rows b k (objects s) @ rows)
                     = select_chunks b' k' (objects s)"
          by (simp only: sel if_False)
        moreover have "object_ok (objects s) b' k'"
          using ok by (simp add: store_ok_def objects_ok_iff)
        ultimately show ?thesis by (simp add: object_ok_def)
      qed
    qed
    moreover have "parts_ok (filter (\<lambda>r. p_upload_id r \<noteq> u) (multipart_parts s))"
      using ok by (intro parts_ok_drop_upload) (simp add: store_ok_def)
    ultimately show ?thesis by (simp add: st store_ok_def)
  qed
qed

subsection \<open>Every reachable store has the chunk layout\<close>

lemma store_ok_apply_op:
  assumes "store_ok s"
  shows "store_ok (apply_op md5 decode s op)"
proof (cases op)
  case (OpPut now bucket key data h)
  have "multipart_parts (snd (putObject md5 now bucket key data h s)) = multipart_parts s"
    by (simp add: putObject_eq)
  with assms OpPut show ?thesis
    by (simp add: store_ok_def objects_ok_putObject)
next
  case (OpCopy now bucket destKey copySource)
  have "multipart_parts (snd (copyObject decode now bucket destKey copySource s))
          = multipart_parts s"
    using copyObject_store[of decode now bucket destKey copySource s] by auto
  with assms OpCopy show ?thesis
    by (simp add: store_ok_def objects_ok_copyObject)
next
  case (OpDelete bucket key)
  with assms show ?thesis
    by (simp add: store_ok_def deleteObject_def objects_ok_delete)
next
  case (OpCreate uuid now bucket key h)
  with assms show ?thesis
    by (simp add: store_ok_def createMultipartUpload_def Let_def split: option.splits)
next
  case (OpUploadPart bucket key uploadId partNumber data)
  have "objects (snd (uploadPart md5 bucket key uploadId partNumber data s)) = objects s"
    by (cases partNumber) (simp_all add: uploadPart_eq uploadPart_NaN)
  with assms OpUploadPart show ?thesis
    by (simp add: store_ok_def parts_ok_uploadPart)
next
  case (OpComplete uuid now bucket key uploadId)
  with assms show ?thesis by (simp add: store_ok_complete)
next
  case (OpAbort uploadId)
  with assms show ?thesis
    by (simp add: store_ok_def abortMultipartUpload_def parts_ok_drop_upload)
qed

lemma store_ok_foldl:
  "store_ok s \<Longrightarrow> store_ok (foldl (apply_op md5 decode) s ops)"
  by (induction ops arbitrary: s) (simp_all add: store_ok_apply_op)

lemma store_ok_empty: "store_ok empty_store"
  by (simp add: store_ok_def objects_ok_def parts_ok_def empty_store_def)

lemma chunks_from_small: "length data \<le> CHUNK_SIZE \<Longrightarrow> chunks_from data CHUNK_SIZE = []"
  by (subst chunks_from.simps) simp

lemma run_two_small_parts:
  "objects (run md5c Some two_small_parts) = assembled_rows"
proof -
  define u where "u = js ''u-1''"
  define up where "up = \<lparr>u_upload_id = u, u_bucket = js ''b'', u_key = js ''m.txt'',
                          u_created_at = now0, u_content_type = js ''application/octet-stream''\<rparr>"
  define p1 where "p1 = part_chunk_row u 1 0 1 (md5c [1]) [1]"
  define p2 where "p2 = part_chunk_row u 2 0 1 (md5c [2]) [2]"
  define s1 where "s1 = \<lparr>objects = [], multipart_uploads = [up], multipart_parts = []\<rparr>"
  define s2 where "s2 = s1\<lparr>multipart_parts := [p1]\<rparr>"
  define s3 where "s3 = s1\<lparr>multipart_parts := [p1, p2]\<rparr>"
  have small: "chunks_from [1] CHUNK_SIZE = []" "chunks_from [2] CHUNK_SIZE = []"
    by (rule chunks_from_small, simp add: CHUNK_SIZE_def)+
  have tk: "take CHUNK_SIZE [1::8 word] = [1]" "take CHUNK_SIZE [2::8 word] = [2]"
    by (simp_all add: CHUNK_SIZE_def)
  have c1: "snd (createMultipartUpload u now0 (js ''b'') (js ''m.txt'') None empty_store) = s1"
    by (simp add: createMultipartUpload_def insert_upload_def empty_store_def s1_def up_def)
  have c2: "snd (uploadPart md5c (js ''b'') (js ''m.txt'') u (Num 1) [1] s1) = s2"
    by (simp add: uploadPart_eq upload_part_rows_def small delete_part_rows_def s1_def s2_def
          p1_def tk)
  have c3: "snd (uploadPart md5c (js ''b'') (js ''m.txt'') u (Num 2) [2] s2) = s3"
    by (simp add: uploadPart_eq upload_part_rows_def small delete_part_rows_def s1_def s2_def
          s3_def p1_def p2_def is_part_def part_chunk_row_def tk)
  have f: "filter (\<lambda>x. u_upload_id x = u) (multipart_uploads s3) = up # []"
    by (simp add: s3_def s1_def up_def)
  have sp: "select_parts u (multipart_parts s3) = [p1, p2]"
    by (simp add: select_parts_def s3_def s1_def p1_def p2_def part_chunk_row_def)
  have ne: "select_parts u (multipart_parts s3) \<noteq> []" by (simp add: sp)
  have sc: "select_part_chunks u (p_part_number p1) (multipart_parts s3) = [p1]"
    "select_part_chunks u (p_part_number p2) (multipart_parts s3) = [p2]"
    by (simp_all add: select_part_chunks_def s3_def s1_def p1_def p2_def part_chunk_row_def
          is_part_def)
  have al: "all_part_chunks u (multipart_parts s3) [p1, p2] = [p1, p2]"
    by (simp add: all_part_chunks_def sc)
  have et: "filter (\<lambda>c. c \<noteq> 45) (js ''e1'') @ js ''-'' @ [50] = js ''e1-2''"
    by (simp add: js_def)
  have c4: "objects (snd (completeMultipartUpload (js ''e1'') now0 (js ''b'') (js ''m.txt'') u s3))
              = assembled_rows"
    unfolding completeMultipartUpload_eq[OF f ne] sp al
    by (simp add: complete_meta_def et complete_row_def assembled_rows_def s3_def s1_def
          delete_object_rows_def p1_def p2_def part_chunk_row_def meta_row_def up_def)
  show ?thesis
    by (simp add: run_def two_small_parts_def u_def[symmetric] c1 c2 c3 c4)
qed

lemma length_concat_bounded:
  "list_all (\<lambda>d. length d \<le> c) ds \<Longrightarrow> length (concat ds) \<le> length ds * c"
  by (induction ds) auto

lemma ceil_div_bound:
  assumes "0 < (c::nat)" and "sz \<le> n * c"
  shows "(sz + c - 1) div c \<le> n"
proof -
  have "sz + c - 1 < Suc n * c" using assms by simp
  then have "(sz + c - 1) div c < Suc n"
    using assms(1) by (simp only: div_less_iff_less_mult)
  then show ?thesis by simp
qed

lemma filter_later_upt: "filter (\<lambda>i. 1 \<le> i) [0..<Suc n] = [1..<Suc n]"
proof -
  have "[0..<Suc n] = 0 # [1..<Suc n]" by (simp add: upt_conv_Cons del: upt_Suc)
  moreover have "filter (\<lambda>i. 1 \<le> i) [1..<Suc n] = [1..<Suc n]"
    by (simp add: filter_id_conv del: upt_Suc)
  ultimately show ?thesis by (simp del: upt_Suc)
qed

text \<open>
  Claim C3 as stated fails: after a multipart upload of two one-byte parts the object has
  size 2, not above \<open>CHUNK_SIZE\<close>, and a row with \<open>chunk_index = 1\<close>.
\<close>

theorem C3_small_multipart_counterexample:
  "\<not> spec_chunk_layout (objects (run md5c Some two_small_parts))"
  unfolding run_two_small_parts
  by (simp add: spec_chunk_layout_def assembled_rows_def select_chunks_def is_object_def
        meta_row_def chunk_row_def CHUNK_SIZE_def Let_def)

text \<open>
  Claim C3, amended. In every store reached from the empty store by any sequence of
  PutObject, CopyObject, DeleteObject, CreateMultipartUpload, UploadPart,
  CompleteMultipartUpload and AbortMultipartUpload, every stored object has rows with the
  dense chunk indices \<open>0, 1, ..., n - 1\<close> (so its rows with \<open>chunk_index \<ge> 1\<close> are
  \<open>1, ..., n - 1\<close>), chunk 0 records as \<open>size\<close> exactly the number of bytes that all
  chunks hold together, no chunk holds more than \<open>CHUNK_SIZE\<close> bytes, and therefore
  \<open>n \<ge> \<lceil>size / CHUNK_SIZE\<rceil>\<close>. The number of chunks is not bounded above by the
  size: CompleteMultipartUpload keeps the chunk boundaries of the parts.
\<close>

theorem C3_reachable_chunk_layout:
  assumes sel: "select_chunks bucket key (objects (run md5 decode ops)) = c0 # cs"
  shows "map o_chunk_index (c0 # cs) = [0..<Suc (length cs)]
         \<and> filter (\<lambda>i. 1 \<le> i) (map o_chunk_index (c0 # cs)) = [1..<Suc (length cs)]
         \<and> o_size c0 = length (concat (map o_data (c0 # cs)))
         \<and> list_all (\<lambda>c. length (o_data c) \<le> CHUNK_SIZE) (c0 # cs)
         \<and> (o_size c0 + CHUNK_SIZE - 1) div CHUNK_SIZE \<le> Suc (length cs)"
proof -
  have "store_ok (run md5 decode ops)"
    unfolding run_def by (rule store_ok_foldl[OF store_ok_empty])
  then have "object_ok (objects (run md5 decode ops)) bucket key"
    by (simp add: store_ok_def objects_ok_iff)
  with sel have ok: "chunks_ok (map o_chunk_index (c0 # cs)) (o_size c0) (map o_data (c0 # cs))"
    by (simp add: object_ok_def)
  then have idx: "map o_chunk_index (c0 # cs) = [0..<Suc (length cs)]"
    and sz: "o_size c0 = length (concat (map o_data (c0 # cs)))"
    and bd: "list_all (\<lambda>d. length d \<le> CHUNK_SIZE) (map o_data (c0 # cs))"
    by (simp_all add: chunks_ok_def)
  have later: "filter (\<lambda>i. 1 \<le> i) (map o_chunk_index (c0 # cs)) = [1..<Suc (length cs)]"
    by (simp only: idx filter_later_upt)
  have bd': "list_all (\<lambda>c. length (o_data c) \<le> CHUNK_SIZE) (c0 # cs)"
    using bd by (simp add: list_all_iff)
  have "o_size c0 \<le> length (map o_data (c0 # cs)) * CHUNK_SIZE"
    unfolding sz using bd by (rule length_concat_bounded)
  then have "o_size c0 \<le> Suc (length cs) * CHUNK_SIZE" by simp
  with CHUNK_SIZE_pos have ceil: "(o_size c0 + CHUNK_SIZE - 1) div CHUNK_SIZE \<le> Suc (length cs)"
    by (rule ceil_div_bound)
  show ?thesis using idx later sz bd' ceil by (intro conjI)
qed

theorem C3_reachable_chunk_layout_witness:
  "select_chunks (js ''b'') (js ''m.txt'') (objects (run md5c Some two_small_parts))
     = assembled_rows
   \<and> map o_chunk_index assembled_rows = [0..<Suc (Suc 0)]
   \<and> o_size (hd assembled_rows) = length (concat (map o_data assembled_rows))
   \<and> (o_size (hd assembled_rows) + CHUNK_SIZE - 1) div CHUNK_SIZE \<le> Suc (Suc 0)"
proof -
  have sel: "select_chunks (js ''b'') (js ''m.txt'') (objects (run md5c Some two_small_parts))
               = hd assembled_rows # tl assembled_rows"
    unfolding run_two_small_parts
    by (simp add: assembled_rows_def select_chunks_def is_object_def meta_row_def chunk_row_def)
  have a: "hd assembled_rows # tl assembled_rows = assembled_rows"
    by (simp add: assembled_rows_def)
  have l: "length (tl assembled_rows) = Suc 0"
    by (simp add: assembled_rows_def)
  note t = C3_reachable_chunk_layout[OF sel, unfolded a l]
  show ?thesis
    using t sel[unfolded a] by blast
qed

subsection \<open>A multipart upload session\<close>

lemma getObject_after_complete:
  assumes up: "filter (\<lambda>x. u_upload_id x = u) (multipart_uploads s) = upload # others"
    and ne: "select_parts u (multipart_parts s) \<noteq> []"
    and ok: "\<And>n. part_ok (multipart_parts s) u n"
  shows "status (fst (completeMultipartUpload uuid now b k u s)) = 200
    \<and> status (getObject (snd (completeMultipartUpload uuid now b k u s)) b k False) = 200
    \<and> body (getObject (snd (completeMultipartUpload uuid now b k u s)) b k False)
        = Binary (concat (map p_data (all_part_chunks u (multipart_parts s)
                                         (select_parts u (multipart_parts s)))))
    \<and> hdr_content_length (getObject (snd (completeMultipartUpload uuid now b k u s)) b k False)
        = Some (length (concat (map p_data (all_part_chunks u (multipart_parts s)
                                              (select_parts u (multipart_parts s))))))"
proof -
  define al where
    "al = all_part_chunks u (multipart_parts s) (select_parts u (multipart_parts s))"
  define meta where
    "meta = complete_meta uuid now b k upload (select_parts u (multipart_parts s))"
  define rows where "rows = complete_rows meta 0 al"
  define s' where "s' = snd (completeMultipartUpload uuid now b k u s)"
  have m0: "o_chunk_index meta = 0" by (simp add: meta_def complete_meta_def)
  have rok: "chunks_ok (map o_chunk_index rows) (o_size (hd rows)) (map o_data rows)"
    unfolding rows_def meta_def al_def using ok ne by (rule complete_rows_ok)
  have ane: "al \<noteq> []"
    unfolding al_def using ok ne by (rule all_part_chunks_nonempty)
  then obtain a as where a: "al = a # as" by (cases al) auto
  have ris: "\<And>r. r \<in> set rows \<Longrightarrow> is_object b k r"
    using complete_rows_is_object[OF m0] by (simp add: rows_def meta_def complete_meta_def)
  have rsorted: "sorted (map o_chunk_index rows)"
    by (simp only: rows_def complete_rows_index[OF m0] sorted_upt)
  have obj: "objects s' = delete_object_rows b k (objects s) @ rows"
    by (simp add: s'_def completeMultipartUpload_eq[OF up ne] rows_def meta_def al_def)
  have sel: "select_chunks b k (objects s') = rows"
    unfolding obj using select_chunks_replace[OF ris rsorted, of b k "objects s"] by simp
  have dat: "map o_data rows = map p_data al"
    by (simp add: rows_def complete_rows_data)
  have idx: "map o_chunk_index (select_chunks b k (objects s')) = [0..<Suc (length as)]"
    unfolding sel using rok by (simp add: chunks_ok_def dat a)
  have sz: "o_size (hd (select_chunks b k (objects s')))
              = length (concat (map o_data (select_chunks b k (objects s'))))"
    unfolding sel using rok by (simp add: chunks_ok_def)
  note g = getObject_chunks[OF idx sz, of False, unfolded sel dat]
  have st: "status (fst (completeMultipartUpload uuid now b k u s)) = 200"
    by (simp add: completeMultipartUpload_eq[OF up ne] xmlResponse_def)
  show ?thesis
    unfolding s'_def[symmetric] al_def[symmetric]
    using st by (simp add: g)
qed

lemma upload_all_snoc:
  "upload_all md5 b k u (ups @ [(n, data)]) s
     = snd (uploadPart md5 b k u (Num n) data (upload_all md5 b k u ups s))"
  by (simp add: upload_all_def)

lemma upload_all_frame:
  "objects (upload_all md5 b k u ups s) = objects s
   \<and> multipart_uploads (upload_all md5 b k u ups s) = multipart_uploads s"
proof (induction ups rule: rev_induct)
  case Nil
  then show ?case by (simp add: upload_all_def)
next
  case (snoc x ups)
  obtain n data where x: "x = (n, data)" by (cases x)
  show ?case
    unfolding x upload_all_snoc using snoc by (simp add: uploadPart_eq)
qed

lemma upload_all_part_chunks:
  assumes fresh: "u \<notin> p_upload_id ` set (multipart_parts s)"
  shows "select_part_chunks u n (multipart_parts (upload_all md5 b k u ups s))
           = (case map_of (rev ups) n of
                None \<Rightarrow> []
              | Some data \<Rightarrow> upload_part_rows md5 u n data)"
proof (induction ups arbitrary: n rule: rev_induct)
  case Nil
  have "select_part_chunks u n (multipart_parts s) = []"
    using fresh by (auto simp: select_part_chunks_empty_iff is_part_def)
  then show ?case by (simp add: upload_all_def)
next
  case (snoc x ups)
  obtain m data where x: "x = (m, data)" by (cases x)
  show ?case
    unfolding x upload_all_snoc select_part_chunks_uploadPart
    using snoc[of n] by simp
qed

lemma filter_chunk0_upload_part_rows:
  "filter (is_chunk0_of u) (upload_part_rows md5 u n data) = [hd (upload_part_rows md5 u n data)]"
proof -
  have "filter (is_chunk0_of u) (upload_part_rows md5 u n data)
          = filter (\<lambda>r. p_chunk_index r = 0) (upload_part_rows md5 u n data)"
  proof (rule filter_cong[OF refl])
    fix r assume "r \<in> set (upload_part_rows md5 u n data)"
    then have "is_part u n r" by (rule upload_part_rows_is_part)
    then show "is_chunk0_of u r = (p_chunk_index r = 0)"
      by (simp add: is_chunk0_of_def is_part_def)
  qed
  also have "\<dots> = [hd (upload_part_rows md5 u n data)]"
    using upload_part_rows_index by (rule filter_index0)
  finally show ?thesis .
qed

lemma filter_chunk0_delete:
  "filter (is_chunk0_of u) (delete_part_rows u n t)
     = filter (\<lambda>r. p_part_number r \<noteq> n) (filter (is_chunk0_of u) t)"
  unfolding delete_part_rows_def filter_filter
  by (rule filter_cong[OF refl]) (auto simp: is_chunk0_of_def is_part_def)

lemma chunk0_numbers_uploadPart:
  "map p_part_number
     (filter (is_chunk0_of u) (multipart_parts (snd (uploadPart md5 b k u (Num n) data s))))
   = filter (\<lambda>m. m \<noteq> n) (map p_part_number (filter (is_chunk0_of u) (multipart_parts s)))
     @ [n]"
proof -
  have "p_part_number (hd (upload_part_rows md5 u n data)) = n"
    by (simp add: upload_part_rows_def part_chunk_row_def)
  then show ?thesis
    by (simp add: uploadPart_eq filter_chunk0_upload_part_rows filter_chunk0_delete
          filter_map comp_def)
qed

lemma upload_all_chunk0_numbers:
  assumes fresh: "u \<notin> p_upload_id ` set (multipart_parts s)"
  shows "distinct (map p_part_number
                     (filter (is_chunk0_of u) (multipart_parts (upload_all md5 b k u ups s))))
         \<and> set (map p_part_number
                   (filter (is_chunk0_of u) (multipart_parts (upload_all md5 b k u ups s))))
             = fst ` set ups"
proof (induction ups rule: rev_induct)
  case Nil
  have "filter (is_chunk0_of u) (multipart_parts s) = []"
    using fresh by (auto simp: filter_empty_conv is_chunk0_of_def)
  then show ?case by (simp add: upload_all_def)
next
  case (snoc x ups)
  obtain n data where x: "x = (n, data)" by (cases x)
  show ?case
    unfolding x upload_all_snoc chunk0_numbers_uploadPart
    using snoc by auto
qed

lemma distinct_map_sort_key: "distinct (map f (sort_key f xs)) = distinct (map f xs)"
  by (induction xs) (simp_all add: distinct_insort_key)

lemma select_parts_numbers:
  assumes "distinct (map p_part_number (filter (is_chunk0_of u) pt))"
    and "set (map p_part_number (filter (is_chunk0_of u) pt)) = fst ` set ups"
  shows "map p_part_number (select_parts u pt) = sort (remdups (map fst ups))"
proof (rule sorted_distinct_set_unique)
  have sp: "select_parts u pt = sort_key p_part_number (filter (is_chunk0_of u) pt)"
    by (simp add: select_parts_def is_chunk0_of_def[abs_def])
  show "sorted (map p_part_number (select_parts u pt))"
    unfolding sp by (rule sorted_sort_key)
  show "distinct (map p_part_number (select_parts u pt))"
    unfolding sp distinct_map_sort_key by (rule assms(1))
  show "sorted (sort (remdups (map fst ups)))" by simp
  show "distinct (sort (remdups (map fst ups)))" by simp
  show "set (map p_part_number (select_parts u pt)) = set (sort (remdups (map fst ups)))"
    unfolding sp using assms(2) by simp
qed

lemma getObject_depends_on_objects:
  assumes "objects s = objects s'"
  shows "getObject s b k headOnly = getObject s' b k headOnly"
  unfolding getObject_def assms ..

lemma getObject_404:
  assumes "status (getObject s b k headOnly) = 404"
  shows "getObject s b k headOnly
           = errorResponse NoSuchKey ''The specified key does not exist.'' 404"
proof (cases "select_chunk0 b k (objects s)")
  case Nil
  then show ?thesis by (simp add: getObject_def)
next
  case (Cons row rows)
  have "status (getObject s b k headOnly) = 200 \<or> status (getObject s b k headOnly) = 500"
    unfolding getObject_def Cons list.case Let_def
    by (simp add: errorResponse_def split: option.splits)
  with assms show ?thesis by simp
qed

lemma createMultipartUpload_ok:
  assumes "status (fst (createMultipartUpload u now b k h s)) = 200"
  shows "\<exists>row. u_upload_id row = u
           \<and> snd (createMultipartUpload u now b k h s)
               = s\<lparr>multipart_uploads := multipart_uploads s @ [row]\<rparr>"
proof -
  define row where
    "row = \<lparr>u_upload_id = u, u_bucket = b, u_key = k, u_created_at = now,
            u_content_type = (case h of None \<Rightarrow> js ''application/octet-stream''
                              | Some c \<Rightarrow> if c = [] then js ''application/octet-stream'' else c)\<rparr>"
  show ?thesis
  proof (cases "insert_upload row (multipart_uploads s)")
    case None
    then have "status (fst (createMultipartUpload u now b k h s)) = 500"
      by (simp add: createMultipartUpload_def Let_def row_def[symmetric] errorResponse_def)
    with assms show ?thesis by simp
  next
    case (Some t)
    then have "t = multipart_uploads s @ [row]"
      by (simp add: insert_upload_def split: if_splits)
    with Some have "snd (createMultipartUpload u now b k h s)
                      = s\<lparr>multipart_uploads := multipart_uploads s @ [row]\<rparr>"
      by (simp add: createMultipartUpload_def Let_def row_def[symmetric])
    moreover have "u_upload_id row = u" by (simp add: row_def)
    ultimately show ?thesis by blast
  qed
qed

lemma concat_data_all_part_chunks:
  "concat (map p_data (all_part_chunks u pt parts))
     = concat (map (\<lambda>n. concat (map p_data (select_part_chunks u n pt)))
                 (map p_part_number parts))"
  by (induction parts) (simp_all add: all_part_chunks_def)

text \<open>
  Claim C2. A session is created, from any store, with an upload id under which the parts
  table holds no rows yet, and the parts \<open>ups\<close> (at least one) are uploaded in any order,
  possibly re-uploading a part number. Then: if no object is stored at the key when the
  session starts, \<open>getObject\<close> on the key answers \<open>NoSuchKey\<close> with status 404 at every
  point of the session before the completion; and, whether or not an object was stored at
  the key, the completion answers 200 and afterwards \<open>getObject\<close> answers 200 with a body
  that is exactly the concatenation of the parts' bytes in ascending part-number order.
\<close>

theorem C2_multipart_session:
  assumes fresh: "uploadId \<notin> p_upload_id ` set (multipart_parts s0)"
    and created: "status (fst (createMultipartUpload uploadId now bucket key h s0)) = 200"
    and some: "ups \<noteq> []"
  shows "(status (getObject s0 bucket key False) = 404 \<longrightarrow>
            (\<forall>n. getObject (session md5 uploadId now bucket key h (take n ups) s0) bucket key
                    False
                  = errorResponse NoSuchKey ''The specified key does not exist.'' 404))
    \<and> status (fst (completeMultipartUpload uuid now' bucket key uploadId
                      (session md5 uploadId now bucket key h ups s0))) = 200
    \<and> status (getObject (snd (completeMultipartUpload uuid now' bucket key uploadId
                                 (session md5 uploadId now bucket key h ups s0)))
                bucket key False) = 200
    \<and> body (getObject (snd (completeMultipartUpload uuid now' bucket key uploadId
                               (session md5 uploadId now bucket key h ups s0)))
              bucket key False) = Binary (parts_in_order ups)
    \<and> hdr_content_length
          (getObject (snd (completeMultipartUpload uuid now' bucket key uploadId
                             (session md5 uploadId now bucket key h ups s0)))
             bucket key False) = Some (length (parts_in_order ups))"
proof -
  define s1 where "s1 = snd (createMultipartUpload uploadId now bucket key h s0)"
  define s2 where "s2 = session md5 uploadId now bucket key h ups s0"
  from createMultipartUpload_ok[OF created]
  obtain row where row: "u_upload_id row = uploadId"
    and s1: "s1 = s0\<lparr>multipart_uploads := multipart_uploads s0 @ [row]\<rparr>"
    unfolding s1_def by blast
  have fresh1: "uploadId \<notin> p_upload_id ` set (multipart_parts s1)"
    using fresh by (simp add: s1)
  have s2: "s2 = upload_all md5 bucket key uploadId ups s1"
    by (simp add: s2_def session_def s1_def)
  \<comment> \<open>before the completion\<close>
  have before: "status (getObject s0 bucket key False) = 404 \<longrightarrow>
                  (\<forall>n. getObject (session md5 uploadId now bucket key h (take n ups) s0) bucket key
                          False
                        = errorResponse NoSuchKey ''The specified key does not exist.'' 404)"
  proof (intro impI allI)
    fix n
    assume absent: "status (getObject s0 bucket key False) = 404"
    have "objects (session md5 uploadId now bucket key h (take n ups) s0) = objects s0"
      using upload_all_frame[of md5 bucket key uploadId "take n ups" s1]
      by (simp add: session_def s1_def[symmetric]) (simp add: s1)
    then have "getObject (session md5 uploadId now bucket key h (take n ups) s0) bucket key False
                 = getObject s0 bucket key False"
      by (rule getObject_depends_on_objects)
    with getObject_404[OF absent] show
      "getObject (session md5 uploadId now bucket key h (take n ups) s0) bucket key False
         = errorResponse NoSuchKey ''The specified key does not exist.'' 404"
      by simp
  qed
  \<comment> \<open>the session row and the parts at the completion\<close>
  have "multipart_uploads s2 = multipart_uploads s0 @ [row]"
    using upload_all_frame[of md5 bucket key uploadId ups s1] by (simp add: s2 s1)
  then have "filter (\<lambda>x. u_upload_id x = uploadId) (multipart_uploads s2) \<noteq> []"
    using row by simp
  then obtain upload others where
    up: "filter (\<lambda>x. u_upload_id x = uploadId) (multipart_uploads s2) = upload # others"
    by (cases "filter (\<lambda>x. u_upload_id x = uploadId) (multipart_uploads s2)") auto
  have chunks: "\<And>n. select_part_chunks uploadId n (multipart_parts s2)
                  = (case map_of (rev ups) n of
                       None \<Rightarrow> []
                     | Some data \<Rightarrow> upload_part_rows md5 uploadId n data)"
    unfolding s2 using fresh1 by (rule upload_all_part_chunks)
  have ok: "\<And>n. part_ok (multipart_parts s2) uploadId n"
  proof -
    fix n
    show "part_ok (multipart_parts s2) uploadId n"
    proof (cases "map_of (rev ups) n")
      case None
      then show ?thesis by (simp add: part_ok_def chunks)
    next
      case (Some data)
      then have c: "select_part_chunks uploadId n (multipart_parts s2)
                      = upload_part_rows md5 uploadId n data"
        by (simp add: chunks)
      have "upload_part_rows md5 uploadId n data \<noteq> []"
        by (simp add: upload_part_rows_def)
      then show ?thesis
        by (simp add: part_ok_rows[OF c] upload_part_rows_ok)
    qed
  qed
  have nums: "map p_part_number (select_parts uploadId (multipart_parts s2))
                = sort (remdups (map fst ups))"
    using upload_all_chunk0_numbers[OF fresh1, of md5 bucket key ups]
    unfolding s2[symmetric] by (intro select_parts_numbers) simp_all
  have ne: "select_parts uploadId (multipart_parts s2) \<noteq> []"
  proof
    assume "select_parts uploadId (multipart_parts s2) = []"
    with nums have "sort (remdups (map fst ups)) = []" by simp
    then have "set (sort (remdups (map fst ups))) = {}" by simp
    with some show False by simp
  qed
  have bytes_of: "\<And>n. concat (map p_data (select_part_chunks uploadId n (multipart_parts s2)))
                    = latest_part ups n"
  proof -
    fix n
    show "concat (map p_data (select_part_chunks uploadId n (multipart_parts s2)))
            = latest_part ups n"
      by (cases "map_of (rev ups) n")
         (simp_all add: chunks latest_part_def upload_part_rows_data)
  qed
  have bytes: "concat (map p_data (all_part_chunks uploadId (multipart_parts s2)
                                      (select_parts uploadId (multipart_parts s2))))
                 = parts_in_order ups"
    by (simp only: concat_data_all_part_chunks nums bytes_of parts_in_order_def)
  note after = getObject_after_complete[OF up ne ok, of uuid now' bucket key, unfolded bytes]
  show ?thesis
    using before after unfolding s2_def by (intro conjI) blast+
qed

text \<open>Two sessions of three uploads, part 1 uploaded twice: one from the empty store,
  where the key answers 404 until the completion, and one from a store that holds the
  bytes \<open>9, 9\<close> at the key, which the completion replaces.\<close>

theorem C2_multipart_session_witness:
  "parts_in_order [(2, [3]), (1, [9]), (1, [1, 2])] = [1, 2, 3]
   \<and> getObject (session md5c (js ''u-1'') now0 (js ''b'') (js ''m.txt'') None
                  [(2, [3]), (1, [9]), (1, [1, 2])] empty_store) (js ''b'') (js ''m.txt'') False
       = errorResponse NoSuchKey ''The specified key does not exist.'' 404
   \<and> body (getObject
             (snd (completeMultipartUpload (js ''e1'') now0 (js ''b'') (js ''m.txt'') (js ''u-1'')
                     (session md5c (js ''u-1'') now0 (js ''b'') (js ''m.txt'') None
                        [(2, [3]), (1, [9]), (1, [1, 2])] empty_store)))
             (js ''b'') (js ''m.txt'') False) = Binary [1, 2, 3]
   \<and> body (getObject (snd (putObject md5c now0 (js ''b'') (js ''m.txt'') [9, 9] None empty_store))
             (js ''b'') (js ''m.txt'') False) = Binary [9, 9]
   \<and> body (getObject
             (snd (completeMultipartUpload (js ''e1'') now0 (js ''b'') (js ''m.txt'') (js ''u-1'')
                     (session md5c (js ''u-1'') now0 (js ''b'') (js ''m.txt'') None
                        [(2, [3]), (1, [9]), (1, [1, 2])]
                        (snd (putObject md5c now0 (js ''b'') (js ''m.txt'') [9, 9] None
                                empty_store)))))
             (js ''b'') (js ''m.txt'') False) = Binary [1, 2, 3]"
proof -
  define s9 where "s9 = snd (putObject md5c now0 (js ''b'') (js ''m.txt'') [9, 9] None empty_store)"
  have fresh: "js ''u-1'' \<notin> p_upload_id ` set (multipart_parts empty_store)"
    by (simp add: empty_store_def)
  have created: "status (fst (createMultipartUpload (js ''u-1'') now0 (js ''b'') (js ''m.txt'')
                                None empty_store)) = 200"
    by (simp add: createMultipartUpload_def insert_upload_def empty_store_def xmlResponse_def
          Let_def)
  have absent: "status (getObject empty_store (js ''b'') (js ''m.txt'') False) = 404"
    by (simp add: getObject_def select_chunk0_def empty_store_def errorResponse_def)
  have some: "[(2, [3]), (1, [9]), (1, [1, 2])] \<noteq> ([] :: (int \<times> bytes) list)"
    by simp
  have p: "parts_in_order [(2, [3]), (1, [9]), (1, [1, 2])] = [1, 2, 3]"
    by (simp add: parts_in_order_def latest_part_def)
  have tables: "multipart_parts s9 = []" "multipart_uploads s9 = []"
    by (simp_all add: s9_def putObject_eq empty_store_def)
  have fresh9: "js ''u-1'' \<notin> p_upload_id ` set (multipart_parts s9)"
    by (simp add: tables)
  have created9: "status (fst (createMultipartUpload (js ''u-1'') now0 (js ''b'') (js ''m.txt'')
                                 None s9)) = 200"
    by (simp add: createMultipartUpload_def insert_upload_def tables xmlResponse_def Let_def)
  have sel9: "select_chunks (js ''b'') (js ''m.txt'') (objects s9)
                = put_object_rows md5c now0 (js ''b'') (js ''m.txt'') [9, 9] None"
    by (simp add: s9_def select_chunks_putObject)
  have idx9: "map o_chunk_index (select_chunks (js ''b'') (js ''m.txt'') (objects s9))
                = [0..<Suc (length (chunks_from [9, 9 :: 8 word] CHUNK_SIZE))]"
    by (simp only: sel9 put_object_rows_index)
  have sz9: "o_size (hd (select_chunks (js ''b'') (js ''m.txt'') (objects s9)))
               = length (concat (map o_data (select_chunks (js ''b'') (js ''m.txt'') (objects s9))))"
    by (simp only: sel9 put_object_rows_data hd_put_object_rows)
  note g9 = getObject_chunks[OF idx9 sz9, unfolded sel9 put_object_rows_data]
  have stored: "body (getObject s9 (js ''b'') (js ''m.txt'') False) = Binary [9, 9]"
    by (simp add: g9)
  note t = C2_multipart_session[OF fresh created some,
             of md5c "js ''e1''" now0, unfolded p]
  note t9 = C2_multipart_session[OF fresh9 created9 some,
              of md5c "js ''e1''" now0, unfolded p]
  have tk: "take 3 [(2, [3]), (1, [9]), (1, [1, 2 :: 8 word])]
              = [(2 :: int, [3]), (1, [9]), (1, [1, 2])]"
    by simp
  have before: "getObject (session md5c (js ''u-1'') now0 (js ''b'') (js ''m.txt'') None
                  [(2, [3]), (1, [9]), (1, [1, 2])] empty_store) (js ''b'') (js ''m.txt'') False
       = errorResponse NoSuchKey ''The specified key does not exist.'' 404"
    using t absent tk by (metis (no_types))
  show ?thesis
    using t t9 before p stored unfolding s9_def by blast
qed

subsection \<open>CopyObject between two keys, and from a missing source\<close>

lemma copyObject_missing_source:
  assumes nosl: "slash \<notin> set bucket"
    and ne: "bucket \<noteq> []"
    and dec: "decode enc = Some sourceKey"
    and src: "select_chunk0 bucket sourceKey (objects s) = []"
  shows "copyObject decode now bucket destKey (bucket @ slash # enc) s
           = (errorResponse NoSuchKey ''The specified source key does not exist.'' 404, s)"
proof -
  have lead: "take 1 (bucket @ slash # enc) \<noteq> [slash]"
    using nosl ne by (cases bucket) auto
  have idx: "indexOf slash (bucket @ slash # enc) = Some (length bucket)"
    using nosl by (rule indexOf_append_fresh)
  show ?thesis
    unfolding copyObject_def Let_def if_not_P[OF lead] idx option.case
    by (simp add: dec src)
qed

lemma copyObject_other_key:
  assumes nosl: "slash \<notin> set bucket"
    and ne: "bucket \<noteq> []"
    and dec: "decode enc = Some sourceKey"
    and diff: "sourceKey \<noteq> destKey"
    and src: "select_chunks bucket sourceKey (objects s) = c0 # cs"
    and ok: "object_ok (objects s) bucket sourceKey"
  shows "copyObject decode now bucket destKey (bucket @ slash # enc) s
           = (xmlResponse (CopyObjectResult now (quoted (o_etag c0))),
              s\<lparr>objects := delete_object_rows bucket destKey (objects s)
                              @ map (copy_row bucket destKey c0 now) (c0 # cs)\<rparr>)"
proof -
  have lead: "take 1 (bucket @ slash # enc) \<noteq> [slash]"
    using nosl ne by (cases bucket) auto
  have idx: "indexOf slash (bucket @ slash # enc) = Some (length bucket)"
    using nosl by (rule indexOf_append_fresh)
  have i0: "map o_chunk_index (select_chunks bucket sourceKey (objects s)) = [0..<Suc (length cs)]"
    using ok src by (simp add: object_ok_def chunks_ok_def)
  have m: "select_chunk0 bucket sourceKey (objects s) = [c0]"
    using select_chunk0_of_chunks[OF i0] src by simp
  have sel: "select_chunks bucket sourceKey (delete_object_rows bucket destKey (objects s))
               = c0 # cs"
    using diff src by (simp add: select_chunks_delete)
  have dist: "distinct (map o_chunk_index (c0 # cs))"
    using object_ok_distinct[OF ok] src by simp
  have loop: "copy_chunks bucket destKey c0 now (c0 # cs)
                (delete_object_rows bucket destKey (objects s))
              = Inr (delete_object_rows bucket destKey (objects s)
                     @ map (copy_row bucket destKey c0 now) (c0 # cs))"
  proof (rule copy_chunks_eq[OF dist])
    fix r assume "r \<in> set (delete_object_rows bucket destKey (objects s))"
      and "is_object bucket destKey r"
    then show "o_chunk_index r \<notin> o_chunk_index ` set (c0 # cs)"
      using delete_object_rows_none[of r bucket destKey "objects s"] by simp
  qed
  show ?thesis
    unfolding copyObject_def Let_def if_not_P[OF lead] idx option.case
    by (simp add: dec m sel loop del: copy_chunks.simps)
qed

text \<open>After a copy between two different keys both objects exist and \<open>getObject\<close>
  returns the same bytes for both.\<close>

lemma copyObject_other_key_get:
  assumes nosl: "slash \<notin> set bucket"
    and ne: "bucket \<noteq> []"
    and dec: "decode enc = Some sourceKey"
    and diff: "sourceKey \<noteq> destKey"
    and src: "select_chunks bucket sourceKey (objects s) = c0 # cs"
    and ok: "object_ok (objects s) bucket sourceKey"
  shows "status (fst (copyObject decode now bucket destKey (bucket @ slash # enc) s)) = 200
    \<and> body (getObject (snd (copyObject decode now bucket destKey (bucket @ slash # enc) s))
               bucket destKey False)
        = Binary (concat (map o_data (c0 # cs)))
    \<and> body (getObject (snd (copyObject decode now bucket destKey (bucket @ slash # enc) s))
               bucket sourceKey False)
        = Binary (concat (map o_data (c0 # cs)))
    \<and> body (getObject s bucket sourceKey False) = Binary (concat (map o_data (c0 # cs)))"
proof -
  define rows where "rows = map (copy_row bucket destKey c0 now) (c0 # cs)"
  define s' where "s' = snd (copyObject decode now bucket destKey (bucket @ slash # enc) s)"
  note c = copyObject_other_key[where decode = decode and enc = enc and now = now,
             OF nosl ne dec diff src ok]
  have obj: "objects s' = delete_object_rows bucket destKey (objects s) @ rows"
    by (simp add: s'_def c rows_def)
  have cok: "chunks_ok (map o_chunk_index (c0 # cs)) (o_size c0) (map o_data (c0 # cs))"
    using ok src by (simp add: object_ok_def)
  have idx: "map o_chunk_index rows = map o_chunk_index (c0 # cs)"
    and dat: "map o_data rows = map o_data (c0 # cs)"
    by (simp_all add: rows_def)
  have i0: "map o_chunk_index (c0 # cs) = [0..<Suc (length cs)]"
    using cok by (simp add: chunks_ok_def)
  have ris: "\<And>r. r \<in> set rows \<Longrightarrow> is_object bucket destKey r"
    by (auto simp: rows_def)
  have rsorted: "sorted (map o_chunk_index rows)"
    by (simp only: idx i0 sorted_upt)
  have sel: "\<And>b k. select_chunks b k (objects s')
               = (if b = bucket \<and> k = destKey then rows else select_chunks b k (objects s))"
    unfolding obj by (rule select_chunks_replace[OF ris rsorted])
  have "o_chunk_index c0 = 0" using i0 by (simp add: upt_conv_Cons del: upt_Suc)
  then have hs: "o_size (hd rows) = o_size c0"
    by (simp add: rows_def copy_row_def)
  \<comment> \<open>the destination\<close>
  have dsel: "select_chunks bucket destKey (objects s') = rows"
    by (simp add: sel)
  have sz0: "o_size c0 = length (concat (map o_data (c0 # cs)))"
    using cok by (simp add: chunks_ok_def)
  have d1: "map o_chunk_index (select_chunks bucket destKey (objects s')) = [0..<Suc (length cs)]"
    by (simp only: dsel idx i0)
  have d2: "o_size (hd (select_chunks bucket destKey (objects s')))
              = length (concat (map o_data (select_chunks bucket destKey (objects s'))))"
    by (simp only: dsel hs dat sz0)
  have gd: "body (getObject s' bucket destKey False) = Binary (concat (map o_data (c0 # cs)))"
    by (simp add: getObject_chunks[OF d1 d2]) (simp add: dsel dat)
  \<comment> \<open>the source, after and before\<close>
  have ssel: "select_chunks bucket sourceKey (objects s') = c0 # cs"
    using diff by (simp add: sel src)
  have s1: "map o_chunk_index (select_chunks bucket sourceKey (objects s')) = [0..<Suc (length cs)]"
    by (simp only: ssel i0)
  have s2: "o_size (hd (select_chunks bucket sourceKey (objects s')))
              = length (concat (map o_data (select_chunks bucket sourceKey (objects s'))))"
    by (simp only: ssel list.sel sz0)
  have gs: "body (getObject s' bucket sourceKey False) = Binary (concat (map o_data (c0 # cs)))"
    by (simp add: getObject_chunks[OF s1 s2]) (simp add: ssel)
  have b1: "map o_chunk_index (select_chunks bucket sourceKey (objects s)) = [0..<Suc (length cs)]"
    by (simp only: src i0)
  have b2: "o_size (hd (select_chunks bucket sourceKey (objects s)))
              = length (concat (map o_data (select_chunks bucket sourceKey (objects s))))"
    by (simp only: src list.sel sz0)
  have gb: "body (getObject s bucket sourceKey False) = Binary (concat (map o_data (c0 # cs)))"
    by (simp add: getObject_chunks[OF b1 b2]) (simp add: src)
  have st: "status (fst (copyObject decode now bucket destKey (bucket @ slash # enc) s)) = 200"
    by (simp add: c xmlResponse_def)
  show ?thesis
    using st gd gs gb unfolding s'_def by (intro conjI)
qed

subsection \<open>A directory marker under delimiter \<open>/\<close>\<close>

lemma store_marker_objects:
  "objects store_marker
     = [meta_row (js ''b'') (js ''a/'') 0 (js ''00000000000000000000000000000000'')
          now0 (js ''application/octet-stream'') []]"
proof -
  have "chunks_from [] CHUNK_SIZE = []"
    by (subst chunks_from.simps) simp
  then show ?thesis
    by (simp add: store_marker_def putObject_eq put_object_rows_def empty_store_def
          delete_object_rows_def md5c_def content_type_or_default_def)
qed

text \<open>The key \<open>a/\<close> is a directory marker: \<open>computeParent\<close> strips its trailing slash
  and gives it the empty prefix as parent, so the listing with delimiter \<open>/\<close> returns it
  among the contents of the top level.\<close>

lemma directory_marker_listed_as_content:
  "listObjectsV2 (\<lambda>_. Num 1000) lc (js ''b'') [(js ''delimiter'', js ''/'')] store_marker
     = xmlResponse (ListBucketResult
         \<lparr>lb_name = js ''b'', lb_prefix = [], lb_delimiter = Some (js ''/''), lb_key_count = 1,
          lb_max_keys = Num 1000, lb_is_truncated = False, lb_next_continuation_token = None,
          lb_contents = [\<lparr>le_key = js ''a/'', le_last_modified = now0,
                          le_etag = quoted (js ''00000000000000000000000000000000''),
                          le_size = 0\<rparr>],
          lb_common_prefixes = []\<rparr>)"
proof -
  define row where
    "row = meta_row (js ''b'') (js ''a/'') 0 (js ''00000000000000000000000000000000'')
             now0 (js ''application/octet-stream'') []"
  have o: "objects store_marker = [row]" by (simp add: store_marker_objects row_def)
  have par: "computeParent (js ''a/'') = []"
    by (simp add: computeParent_def endsWith_slash_def js_def slash_def)
  have dep: "computeDepth (js ''a/'') = 1"
    by (simp add: computeDepth_def js_def slash_def)
  have rp: "o_parent row = Some []" "o_depth row = Some 1" "o_bucket row = js ''b''"
    "o_chunk_index row = 0" "o_key row = js ''a/''"
    by (simp_all add: row_def meta_row_def par dep)
  have sel: "select_distinct_parents (js ''b'') [] (0 + 1) [] (Num 1000) (objects store_marker)
               = Some [Some []]"
    by (simp add: select_distinct_parents_def bucket_rows_def parent_selected_def o rp)
  have col: "collect_prefixes [] (0 + 1) [Some []] [] = []"
    by simp
  have con: "select_direct_contents (js ''b'') [] [] (Num 1000) (objects store_marker)
               = Some [row]"
    by (simp add: select_direct_contents_def bucket_rows_def o rp after_marker_def)
  have d0: "computeDepth [] = 0" by (simp add: computeDepth_def)
  have ls: "list_slash lc (js ''b'') [] [] (Num 1000) (objects store_marker)
              = Some ([row], [], False, [])"
    unfolding list_slash_def Let_def d0 sel option.case col con by (simp add: sort_by_def)
  have d: "js ''/'' = [slash]" by (simp add: js_def slash_def)
  have p: "param [(js ''delimiter'', js ''/'')] ''delimiter'' = [slash]"
    "param [(js ''delimiter'', js ''/'')] ''prefix'' = []"
    "param [(js ''delimiter'', js ''/'')] ''max-keys'' = []"
    "param [(js ''delimiter'', js ''/'')] ''start-after'' = []"
    "param [(js ''delimiter'', js ''/'')] ''continuation-token'' = []"
    by (simp_all add: param_def js_def slash_def)
  have te: "to_entry row = \<lparr>le_key = js ''a/'', le_last_modified = now0,
                             le_etag = quoted (js ''00000000000000000000000000000000''),
                             le_size = 0\<rparr>"
    by (simp add: to_entry_def row_def meta_row_def)
  show ?thesis
    unfolding listObjectsV2_def Let_def p by (simp add: ls d te)
qed

subsection \<open>The authentication failures that are answered\<close>

lemma fetch_missing_authorization:
  assumes up: "req_upgrade req \<noteq> Some (js ''websocket'')"
    and path: "filter (\<lambda>p. p \<noteq> []) (split slash (req_pathname req)) = bucket # rest"
    and auth: "\<not> truthy (req_authorization req)"
  shows "fetch P d req e
           = (Responded (errorResponse Unauthorized ''Missing authorization'' 401), e, [])"
  unfolding fetch_def if_not_P[OF up] path list.case
  using auth by (simp add: unauthorized_def)

lemma fetch_not_three_parts:
  assumes up: "req_upgrade req \<noteq> Some (js ''websocket'')"
    and path: "filter (\<lambda>p. p \<noteq> []) (split slash (req_pathname req)) = bucket # rest"
    and auth: "req_authorization req = Some (js ''Bearer '' @ token)"
    and tok: "token \<noteq> js ''foo''"
    and parts: "length (split 46 token) \<noteq> 3"
  shows "fetch P d req e
           = (Responded (errorResponse Unauthorized ''Invalid token format'' 401), e, [])"
proof -
  have a: "(\<not> truthy (req_authorization req)) = False"
    by (simp add: auth truthy_bearer)
  have t: "extract_token (case req_authorization req of None \<Rightarrow> [] | Some h \<Rightarrow> h) = Inr token"
    by (simp add: auth extract_token_bearer)
  show ?thesis
    unfolding fetch_def if_not_P[OF up] path list.case a if_False t sum.case if_not_P[OF tok]
      Let_def if_P[OF parts]
    by (simp add: unauthorized_def)
qed

lemma fetch_invalid_claims_or_signature:
  assumes up: "req_upgrade req \<noteq> Some (js ''websocket'')"
    and path: "filter (\<lambda>p. p \<noteq> []) (split slash (req_pathname req)) = bucket # rest"
    and auth: "req_authorization req = Some (js ''Bearer '' @ token)"
    and tok: "token \<noteq> js ''foo''"
    and parts: "split 46 token = [hd_part, payload_part, sig_part]"
    and dec: "pf_atob P payload_part = Some decoded"
    and json: "pf_JSON_parse P decoded = Some (JValue terminalName)"
    and bad: "\<not> terminalName
              \<or> verifyToken (pf_jwtVerify P) token
                   [if truthy (pf_S3_JWT_SECRET P)
                    then (case pf_S3_JWT_SECRET P of None \<Rightarrow> [] | Some x \<Rightarrow> x)
                    else js ''demo-secret-change-in-production''] = None"
  shows "\<exists>message. fetch P d req e
                      = (Responded (errorResponse Unauthorized message 401), e, [])"
proof -
  have a: "(\<not> truthy (req_authorization req)) = False"
    by (simp add: auth truthy_bearer)
  have t: "extract_token (case req_authorization req of None \<Rightarrow> [] | Some h \<Rightarrow> h) = Inr token"
    by (simp add: auth extract_token_bearer)
  have l: "(length [hd_part, payload_part, sig_part] \<noteq> 3) = False"
    and n: "[hd_part, payload_part, sig_part] ! 1 = payload_part"
    by simp_all
  show ?thesis
  proof (cases terminalName)
    case False
    then show ?thesis
      unfolding fetch_def if_not_P[OF up] path list.case a if_False t sum.case if_not_P[OF tok]
        Let_def parts l n dec option.case json json.case
      by (auto simp: unauthorized_def)
  next
    case True
    with bad have v: "verifyToken (pf_jwtVerify P) token
                   [if truthy (pf_S3_JWT_SECRET P)
                    then (case pf_S3_JWT_SECRET P of None \<Rightarrow> [] | Some x \<Rightarrow> x)
                    else js ''demo-secret-change-in-production''] = None"
      by simp
    show ?thesis
      unfolding fetch_def if_not_P[OF up] path list.case a if_False t sum.case if_not_P[OF tok]
        Let_def parts l n dec option.case json json.case v
      using True by (auto simp: unauthorized_def)
  qed
qed

subsection \<open>The verified path broadcasts\<close>

lemma send_all_eq:
  "send_all throws info clients
     = (filter throws clients, map (\<lambda>ws. (ws, info)) (filter (\<lambda>ws. \<not> throws ws) clients))"
  by (induction clients) simp_all

lemma broadcastRequestInfo_eq:
  "broadcastRequestInfo throws info clients
     = (filter (\<lambda>ws. \<not> throws ws) clients,
        map (\<lambda>ws. (ws, info)) (filter (\<lambda>ws. \<not> throws ws) clients))"
proof -
  have "filter (\<lambda>ws. ws \<notin> set (filter throws clients)) clients
          = filter (\<lambda>ws. \<not> throws ws) clients"
    by (rule filter_cong[OF refl]) simp
  then show ?thesis by (simp add: broadcastRequestInfo_def send_all_eq)
qed

text \<open>On the path of a verified token the event goes to every subscriber whose \<open>send\<close>
  does not throw, the others are removed, and the response is the handler's.\<close>

lemma fetch_verified_broadcasts:
  assumes up: "req_upgrade req \<noteq> Some (js ''websocket'')"
    and path: "filter (\<lambda>p. p \<noteq> []) (split slash (req_pathname req)) = bucket # rest"
    and auth: "req_authorization req = Some (js ''Bearer '' @ token)"
    and tok: "token \<noteq> js ''foo''"
    and parts: "split 46 token = [hd_part, payload_part, sig_part]"
    and dec: "pf_atob P payload_part = Some decoded"
    and json: "pf_JSON_parse P decoded = Some (JValue True)"
    and ver: "verifyToken (pf_jwtVerify P) token
                [if truthy (pf_S3_JWT_SECRET P)
                 then (case pf_S3_JWT_SECRET P of None \<Rightarrow> [] | Some x \<Rightarrow> x)
                 else js ''demo-secret-change-in-production''] = Some payload"
    and bkt: "jp_bucket payload = Some bucket"
    and key: "extract_key P (req_pathname req) bucket = Some key"
    and hr: "handleRequest P d bucket key req (sql e) = (response, s')"
  shows "fetch P d req e
           = (Responded response,
              e\<lparr>sql := s',
                webSocketClients := filter (\<lambda>ws. \<not> dr_send_throws d ws) (webSocketClients e)\<rparr>,
              map (\<lambda>ws. (ws, \<lparr>ev_method = req_method req,
                               ev_path = req_pathname req @ req_search req,
                               ev_status = status response, ev_duration = dr_duration d,
                               ev_timestamp = dr_timestamp d\<rparr>))
                (filter (\<lambda>ws. \<not> dr_send_throws d ws) (webSocketClients e)))"
proof -
  have a: "(\<not> truthy (req_authorization req)) = False"
    by (simp add: auth truthy_bearer)
  have t: "extract_token (case req_authorization req of None \<Rightarrow> [] | Some h \<Rightarrow> h) = Inr token"
    by (simp add: auth extract_token_bearer)
  have l: "(length [hd_part, payload_part, sig_part] \<noteq> 3) = False"
    and n: "[hd_part, payload_part, sig_part] ! 1 = payload_part"
    by simp_all
  have b: "(jp_bucket payload \<noteq> Some bucket) = False" by (simp add: bkt)
  show ?thesis
    unfolding fetch_def if_not_P[OF up] path list.case a if_False t sum.case if_not_P[OF tok]
      Let_def parts l n dec option.case json json.case ver b key hr
    by (simp add: broadcastRequestInfo_eq)
qed

subsection \<open>Listing by prefix\<close>

lemma map_insort_key: "map f (insort_key f x ys) = insort (f x) (map f ys)"
  by (induction ys) simp_all

lemma map_sort_key: "map f (sort_key f xs) = sort (map f xs)"
  by (induction xs) (simp_all add: map_insort_key)

lemma take_take_succ: "0 \<le> n \<Longrightarrow> take (nat n) (take (nat (n + 1)) xs) = take (nat n) xs"
  by (simp add: min_def)

text \<open>Without a delimiter, for a non-negative \<open>max-keys\<close> within the 64-bit integers and
  a prefix whose last code unit is not \<open>0xFFFF\<close>, the keys returned are the first
  \<open>max-keys\<close>, in the order of code units, of the keys of the bucket that literally start
  with the prefix (and follow the marker). This is a statement about the model's order; it
  is one about the store on text without surrogate code units.\<close>

lemma list_plain_by_prefix:
  assumes mk: "0 \<le> maxKeys" "maxKeys + 1 < 2 ^ 63"
    and pre: "prefix = [] \<or> last prefix \<noteq> - 1"
  shows "\<exists>objs isTruncated token.
           list_plain bucket prefix marker (Num maxKeys) t = Some (objs, [], isTruncated, token)
           \<and> map o_key objs
               = take (nat maxKeys)
                   (sort (filter (\<lambda>k. startsWith k prefix \<and> after_marker marker k)
                            (map o_key (bucket_rows bucket t))))"
proof -
  define rows where
    "rows = take (nat (maxKeys + 1))
              (sort_key o_key
                 (filter (\<lambda>r. in_prefix_range prefix (o_key r) \<and> after_marker marker (o_key r))
                    (bucket_rows bucket t)))"
  have sel: "select_keys bucket prefix marker (num_add (Num maxKeys) 1) t = Some rows"
    using mk by (simp add: rows_def select_keys_def)
  have r: "map o_key rows
             = take (nat (maxKeys + 1))
                 (sort (filter (\<lambda>k. startsWith k prefix \<and> after_marker marker k)
                          (map o_key (bucket_rows bucket t))))"
    by (simp add: rows_def take_map[symmetric] map_sort_key
          filter_map comp_def in_prefix_range_iff[OF pre])
  have k: "map o_key (js_keep (Num maxKeys) rows)
          = take (nat maxKeys)
              (sort (filter (\<lambda>k. startsWith k prefix \<and> after_marker marker k)
                       (map o_key (bucket_rows bucket t))))"
    using mk(1) by (simp add: take_map[symmetric] r take_take_succ)
  show ?thesis
    unfolding list_plain_def sel option.case Let_def
    by (intro exI conjI) (rule refl, rule k)
qed

subsection \<open>A \<open>max-keys\<close> or \<open>partNumber\<close> that is no number\<close>

text \<open>Every branch of the listing starts with a statement that has a \<open>LIMIT\<close>, so a
  \<open>max-keys\<close> that \<open>parseInt\<close> cannot read is answered \<open>InternalError\<close>.\<close>

lemma listObjectsV2_NaN:
  assumes "parseInt (if param params ''max-keys'' = [] then js ''1000''
                     else param params ''max-keys'') = NaN"
  shows "listObjectsV2 parseInt lc bucket params s
           = errorResponse InternalError ''Failed to list objects'' 500"
  unfolding listObjectsV2_def Let_def assms
  by (simp add: list_slash_def list_delimiter_def list_plain_def select_distinct_parents_def
        select_keys_def Let_def)

text \<open>The router hands \<open>uploadPart\<close> whatever \<open>parseInt\<close> made of the \<open>partNumber\<close>
  parameter; when that is \<open>NaN\<close> the request is answered \<open>InternalError\<close> and the store
  is left as it was.\<close>

lemma handleRequest_uploadPart_NaN:
  assumes key: "key \<noteq> []"
    and put: "req_method req = js ''PUT''"
    and uid: "map_of (req_searchParams req) (js ''uploadId'') = Some u" "u \<noteq> []"
    and pn: "has_param (req_searchParams req) ''partNumber''"
    and nan: "pf_parseInt P (param (req_searchParams req) ''partNumber'') = NaN"
  shows "handleRequest P d bucket key req s
           = (errorResponse InternalError ''Failed to upload part'' 500, s)"
proof -
  have m: "js ''PUT'' \<noteq> js ''HEAD''" "js ''PUT'' \<noteq> js ''GET''" "js ''PUT'' \<noteq> js ''POST''"
    by (simp_all add: js_def)
  show ?thesis
    unfolding handleRequest_def Let_def put
    using key uid pn m by (simp add: truthy_def nan uploadPart_NaN)
qed

subsection \<open>The chunk count of an object written by PutObject\<close>

lemma put_chunk_count_arith:
  assumes "0 < (c::nat)"
  shows "Suc ((n - c + c - 1) div c) = max 1 ((n + c - 1) div c)"
proof (cases "n \<le> c")
  case True
  then have "n - c + c - 1 = c - 1" by simp
  then have l: "(n - c + c - 1) div c = 0" using assms by simp
  have "n + c - 1 < Suc 1 * c" using True assms by simp
  then have "(n + c - 1) div c < Suc 1"
    using assms by (simp only: div_less_iff_less_mult)
  then have "max 1 ((n + c - 1) div c) = 1" by simp
  with l show ?thesis by simp
next
  case False
  then have a: "n - c + c - 1 = n - 1" and b: "n + c - 1 = (n - 1) + c" by simp_all
  have "((n - 1) + c) div c = Suc ((n - 1) div c)"
    using assms by (rule div_step)
  then show ?thesis by (simp only: a b)
qed

text \<open>For the object that PutObject has just written the chunk indices are
  \<open>0, ..., \<lceil>size / CHUNK_SIZE\<rceil> - 1\<close> (and \<open>0\<close> alone for an empty body).\<close>

lemma putObject_chunk_count:
  "map o_chunk_index (select_chunks b k (objects (snd (putObject md5 now b k data h s))))
     = [0..<max 1 ((length data + CHUNK_SIZE - 1) div CHUNK_SIZE)]"
proof -
  have "Suc (length (chunks_from data CHUNK_SIZE))
          = max 1 ((length data + CHUNK_SIZE - 1) div CHUNK_SIZE)"
    unfolding length_chunks_from using CHUNK_SIZE_pos by (rule put_chunk_count_arith)
  then show ?thesis
    by (simp only: select_chunks_putObject simp_thms if_True put_object_rows_index)
qed

end
